theory Spec2Isabelle
  imports Complex_Main "HOL-Library.AList" "HOL-Library.Multiset"
begin

section \<open>Python floats\<close>

text \<open>
  The numbers of the pricing code are Python floats: IEEE 754 binary64 values with
  rounding to the nearest value, ties to even. A finite float is the real number it
  holds; the two infinities and NaN are values of their own. The two zeros are one
  value here: the code never divides by a variable, so they differ only in how they
  print. The numeric fields of the JSON data are taken to be floats (a JSON integer is a
  Python int: it behaves as the float of the same value in every operation below as
  long as it and the results of its arithmetic are held exactly by a float).
\<close>

datatype pyfloat = Fin real | PInf | NInf | NaN

text \<open>The nearest integer, a tie going to the even one.\<close>

definition round_half_even :: "real \<Rightarrow> int" where
  "round_half_even x =
     (let f = \<lfloor>x\<rfloor>; r = x - of_int f
      in if r < 1 / 2 then f else if r > 1 / 2 then f + 1 else if even f then f else f + 1)"

text \<open>
  The binary exponent used to round \<open>a = \<bar>x\<bar>\<close>: the greatest \<open>e\<close> from \<open>-1021\<close> to
  \<open>1023\<close> with \<open>2 powi e \<le> a\<close>, and \<open>-1022\<close> (the exponent of the subnormal numbers) when there
  is none.
\<close>

fun expo_from :: "nat \<Rightarrow> real \<Rightarrow> int" where
  "expo_from 0 a = - 1022"
| "expo_from (Suc n) a =
     (if 2 powi (int (Suc n) - 1022) \<le> a then int (Suc n) - 1022 else expo_from n a)"

definition expo :: "real \<Rightarrow> int" where
  "expo x = expo_from (Suc 2044) \<bar>x\<bar>"

text \<open>
  Rounding a real result to a float: to the nearest multiple of \<open>2 powi (e - 52)\<close>, a tie
  going to the even multiple, which gives 53 significant bits; a result of magnitude
  \<open>2 ^ 1024\<close> or more overflows to an infinity.
\<close>

definition rnd :: "real \<Rightarrow> pyfloat" where
  "rnd x =
     (let q = 2 powi (expo x - 52);
          y = of_int (round_half_even (x / q)) * q
      in if 2 ^ 1024 \<le> y then PInf else if y \<le> - (2 ^ 1024) then NInf else Fin y)"

text \<open>\<^verbatim>\<open>a + b\<close>, \<^verbatim>\<open>a - b\<close> and \<^verbatim>\<open>a * b\<close> on floats.\<close>

fun fadd :: "pyfloat \<Rightarrow> pyfloat \<Rightarrow> pyfloat" where
  "fadd (Fin x) (Fin y) = rnd (x + y)"
| "fadd NaN _ = NaN"
| "fadd _ NaN = NaN"
| "fadd PInf NInf = NaN"
| "fadd NInf PInf = NaN"
| "fadd PInf _ = PInf"
| "fadd _ PInf = PInf"
| "fadd NInf _ = NInf"
| "fadd _ NInf = NInf"

fun fsub :: "pyfloat \<Rightarrow> pyfloat \<Rightarrow> pyfloat" where
  "fsub (Fin x) (Fin y) = rnd (x - y)"
| "fsub NaN _ = NaN"
| "fsub _ NaN = NaN"
| "fsub PInf PInf = NaN"
| "fsub NInf NInf = NaN"
| "fsub PInf _ = PInf"
| "fsub _ NInf = PInf"
| "fsub NInf _ = NInf"
| "fsub _ PInf = NInf"

fun fmul :: "pyfloat \<Rightarrow> pyfloat \<Rightarrow> pyfloat" where
  "fmul (Fin x) (Fin y) = rnd (x * y)"
| "fmul NaN _ = NaN"
| "fmul _ NaN = NaN"
| "fmul PInf (Fin y) = (if y = 0 then NaN else if 0 < y then PInf else NInf)"
| "fmul NInf (Fin y) = (if y = 0 then NaN else if 0 < y then NInf else PInf)"
| "fmul (Fin x) PInf = (if x = 0 then NaN else if 0 < x then PInf else NInf)"
| "fmul (Fin x) NInf = (if x = 0 then NaN else if 0 < x then NInf else PInf)"
| "fmul PInf PInf = PInf"
| "fmul NInf NInf = PInf"
| "fmul PInf NInf = NInf"
| "fmul NInf PInf = NInf"

text \<open>\<^verbatim>\<open>a / 100.00\<close>: the only division of the code, by a constant that is not zero.\<close>

fun fdiv_100 :: "pyfloat \<Rightarrow> pyfloat" where
  "fdiv_100 (Fin x) = rnd (x / 100)"
| "fdiv_100 v = v"

text \<open>\<^verbatim>\<open>a <= b\<close> and \<^verbatim>\<open>a < b\<close>: every comparison with NaN is false.\<close>

fun fle :: "pyfloat \<Rightarrow> pyfloat \<Rightarrow> bool" where
  "fle (Fin x) (Fin y) = (x \<le> y)"
| "fle NaN _ = False"
| "fle _ NaN = False"
| "fle NInf _ = True"
| "fle _ PInf = True"
| "fle _ _ = False"

fun flt :: "pyfloat \<Rightarrow> pyfloat \<Rightarrow> bool" where
  "flt (Fin x) (Fin y) = (x < y)"
| "flt NaN _ = False"
| "flt _ NaN = False"
| "flt PInf _ = False"
| "flt _ NInf = False"
| "flt _ _ = True"

text \<open>\<^verbatim>\<open>n >= x\<close> for an int \<open>n\<close> and a float \<open>x\<close>: Python compares the exact values.\<close>

fun int_ge_float :: "int \<Rightarrow> pyfloat \<Rightarrow> bool" where
  "int_ge_float n (Fin x) = (x \<le> of_int n)"
| "int_ge_float n NInf = True"
| "int_ge_float n _ = False"

text \<open>
  \<^verbatim>\<open>max([a, b])\<close> on floats: \<^verbatim>\<open>max\<close> keeps the first element until a later one is
  greater (\<^verbatim>\<open>item > maxitem\<close>), so a NaN in front stays.
\<close>

definition py_max2 :: "pyfloat \<Rightarrow> pyfloat \<Rightarrow> pyfloat" where
  "py_max2 a b = (if flt a b then b else a)"

text \<open>
  \<^verbatim>\<open>round(x, 2)\<close>: the float nearest to the multiple of \<open>1/100\<close> nearest to \<open>x\<close>, a tie
  going to the even multiple; an infinity and NaN round to themselves.
\<close>

fun round2 :: "pyfloat \<Rightarrow> pyfloat" where
  "round2 (Fin x) = rnd (of_int (round_half_even (x * 100)) / 100)"
| "round2 v = v"

section \<open>Value objects\<close>

text \<open>
  The classes of \<^verbatim>\<open>package_data.py\<close> become records. A slot of a \<^verbatim>\<open>BaseData\<close>
  object that was never set, or that holds Python's \<^verbatim>\<open>None\<close>, reads as \<open>None\<close>
  through \<^verbatim>\<open>getattr(obj, slot, None)\<close>; both are the value \<open>None\<close> of an option
  type here.
\<close>

record LocationInformation =
  state :: "string option"
  city :: "string option"
  street_address :: "string option"
  zip_code :: "string option"

record DateInformation =
  day :: "int option"
  month :: "int option"
  year :: "int option"

record BatteryPackage =
  battery_type :: string
  battery_weight :: pyfloat
  quality :: pyfloat
  return_reason :: string

text \<open>
  \<^verbatim>\<open>BaseData.__eq__\<close>: the loop over \<^verbatim>\<open>self.__slots__\<close>. The first list holds the
  slots of \<^verbatim>\<open>self\<close>, the second what \<^verbatim>\<open>getattr(other, slot, None)\<close> reads for the
  same slots; a slot that \<^verbatim>\<open>other\<close> does not have reads as \<open>None\<close>.
\<close>

fun BaseData_eq :: "'v option list \<Rightarrow> 'v option list \<Rightarrow> bool" where
  "BaseData_eq [] _ = True"
| "BaseData_eq (a # vs) [] = False"
| "BaseData_eq (a # vs) (b # ws) =
     (if a = None \<or> b = None \<or> a \<noteq> b then False else BaseData_eq vs ws)"

definition Location_slots :: "LocationInformation \<Rightarrow> string option list" where
  "Location_slots l = [state l, city l, street_address l, zip_code l]"

definition Date_slots :: "DateInformation \<Rightarrow> int option list" where
  "Date_slots d = [day d, month d, year d]"

text \<open>
  \<^verbatim>\<open>location == other\<close> and \<^verbatim>\<open>date == other\<close>, where \<^verbatim>\<open>other\<close> is the attribute of an
  order and may be \<^verbatim>\<open>None\<close>: every \<^verbatim>\<open>getattr(None, slot, None)\<close> is \<^verbatim>\<open>None\<close>.
\<close>

definition Location_eq :: "LocationInformation \<Rightarrow> LocationInformation option \<Rightarrow> bool" where
  "Location_eq self other =
     BaseData_eq (Location_slots self)
       (case other of None \<Rightarrow> map (\<lambda>_. None) (Location_slots self)
        | Some l \<Rightarrow> Location_slots l)"

definition Date_eq :: "DateInformation \<Rightarrow> DateInformation option \<Rightarrow> bool" where
  "Date_eq self other =
     BaseData_eq (Date_slots self)
       (case other of None \<Rightarrow> map (\<lambda>_. None) (Date_slots self)
        | Some d \<Rightarrow> Date_slots d)"

section \<open>Orders and the packaging system\<close>

text \<open>
  The quote's \<^verbatim>\<open>pandas.DataFrame\<close> is a list of labelled rows of cells. A cell is a
  string, a number, the text \<^verbatim>\<open>f"{bonus}%"\<close>, kept as the number it prints, or the
  value of \<^verbatim>\<open>sum(xs)\<close>, kept as the list it adds up (how \<^verbatim>\<open>sum\<close> rounds depends on
  the version of Python).
\<close>

datatype cell = Text string | Number pyfloat | Percent pyfloat | Sum "pyfloat list"

type_synonym dataframe = "(string \<times> cell list) list"

record Order =
  order_id :: "int option"
  distance_to_ship :: pyfloat
  location :: "LocationInformation option"
  date :: "DateInformation option"
  packages :: "BatteryPackage list"
  total_cost :: "pyfloat option"
  accepted :: bool
  df :: "dataframe option"

text \<open>\<^verbatim>\<open>Order.__init__\<close>, with the defaults of its attributes.\<close>

definition Order_init ::
  "int option \<Rightarrow> LocationInformation option \<Rightarrow> DateInformation option \<Rightarrow> BatteryPackage list \<Rightarrow> Order" where
  "Order_init oid loc dt pkgs =
     \<lparr>order_id = oid, distance_to_ship = Fin 0, location = loc, date = dt, packages = pkgs,
      total_cost = None, accepted = False, df = None\<rparr>"

text \<open>
  The entries of the rate tables are JSON objects read by key; the three keys named
  \<^verbatim>\<open>multiplier\<close> are told apart by the table they belong to.
\<close>

record quality_tier =
  max_percent :: pyfloat
  quality_multiplier :: pyfloat

record weight_tier =
  max_weight :: pyfloat
  weight_multiplier :: pyfloat

record distance_tier =
  min_distance :: pyfloat
  distance_multiplier :: pyfloat

record bonus_tier =
  min_packages :: pyfloat
  percent :: pyfloat

text \<open>
  \<^verbatim>\<open>PackagingSystem\<close>: the rate tables that the operations read, and the dictionary
  of orders in insertion order. The tables \<^verbatim>\<open>package_types\<close> and
  \<^verbatim>\<open>battery_packaging\<close> are stored by the constructor and read by no operation.
\<close>

record PackagingSystem =
  qualities :: "quality_tier list"
  weights :: "weight_tier list"
  battery_base_value :: "(string \<times> pyfloat) list"
  distance :: "distance_tier list"
  bonus :: "bonus_tier list"
  orders :: "(int option \<times> Order) list"

datatype exn = KeyError string

text \<open>What \<^verbatim>\<open>quote\<close> returns: \<^verbatim>\<open>None\<close>, the cached \<^verbatim>\<open>total_cost\<close>, or the data frame.\<close>

datatype quote_result = NoQuote | CachedCost pyfloat | Frame dataframe

definition add_order :: "PackagingSystem \<Rightarrow> Order \<Rightarrow> PackagingSystem" where
  "add_order self order =
     (if map_of (orders self) (order_id order) \<noteq> None then self
      else self\<lparr>orders := orders self @ [(order_id order, order)]\<rparr>)"

subsection \<open>Searching\<close>

text \<open>
  \<^verbatim>\<open>_simple_compare(x, y, var)\<close>. The attribute name \<^verbatim>\<open>var\<close> is the field selector,
  and the \<^verbatim>\<open>__eq__\<close> that Python finds on the class of \<^verbatim>\<open>x\<close> is passed as \<open>eq\<close>.
\<close>

definition simple_compare :: "('x \<Rightarrow> 'f \<Rightarrow> bool) \<Rightarrow> 'x \<Rightarrow> 'y \<Rightarrow> ('y \<Rightarrow> 'f) \<Rightarrow> 'y option" where
  "simple_compare eq x y var = (if eq x (var y) then Some y else None)"

text \<open>
  \<^verbatim>\<open>_find_inner_data\<close>: one future per element, results collected in the order in
  which the futures complete. That order is the parameter \<open>as_completed\<close>, which
  rearranges the submitted elements.
\<close>

definition find_inner_data ::
  "('y list \<Rightarrow> 'y list) \<Rightarrow> ('x \<Rightarrow> 'y \<Rightarrow> ('y \<Rightarrow> 'f) \<Rightarrow> 'y option) \<Rightarrow> 'x \<Rightarrow> 'y list \<Rightarrow> ('y \<Rightarrow> 'f) \<Rightarrow> 'y list" where
  "find_inner_data as_completed func compare_var list_vars var =
     List.map_filter (\<lambda>y. func compare_var y var) (as_completed list_vars)"

text \<open>
  \<^verbatim>\<open>find_orders\<close>. The result \<open>None\<close> is the \<^verbatim>\<open>return None\<close> after the logged error;
  an element \<open>None\<close> of the list is the \<^verbatim>\<open>None\<close> that \<^verbatim>\<open>self.orders.get\<close> gives for
  an unknown id.
\<close>

definition find_orders ::
  "(Order list \<Rightarrow> Order list) \<Rightarrow> PackagingSystem \<Rightarrow> int option \<Rightarrow> LocationInformation option
     \<Rightarrow> DateInformation option \<Rightarrow> Order option list option" where
  "find_orders as_completed self oid loc dt =
     (if oid \<noteq> None then Some [map_of (orders self) oid]
      else case loc of
        None \<Rightarrow> None
      | Some l \<Rightarrow>
          (let os = map snd (orders self);
               matching_results =
                 find_inner_data as_completed (simple_compare Location_eq) l os location
           in case dt of
                Some d \<Rightarrow>
                  if matching_results \<noteq> [] then
                    Some (map Some
                      (find_inner_data as_completed (simple_compare Date_eq) d
                         matching_results date))
                  else Some (map Some matching_results)
              | None \<Rightarrow> Some (map Some matching_results)))"

subsection \<open>Accepting a quote\<close>

definition quote_reply :: "PackagingSystem \<Rightarrow> int option \<Rightarrow> bool \<Rightarrow> PackagingSystem" where
  "quote_reply self oid answer =
     (if map_of (orders self) oid \<noteq> None
      then self\<lparr>orders := AList.map_entry oid (\<lambda>ord. ord\<lparr>accepted := answer\<rparr>) (orders self)\<rparr>
      else self)"

text \<open>
  The branch of \<^verbatim>\<open>handle_quote_request\<close> (app.py) taken when the request has both
  \<^verbatim>\<open>order_id\<close> and \<^verbatim>\<open>accept\<close>. The value of \<^verbatim>\<open>accept\<close> is any JSON value.
\<close>

datatype json =
  JNull | JBool bool | JInt int | JFloat pyfloat | JString string
  | JArray "json list" | JObject "(string \<times> json) list"

datatype message = OrderSetTo "int option" bool | AnswerNotTrueFalse

fun truthy :: "json \<Rightarrow> bool" where
  "truthy JNull = False"
| "truthy (JBool b) = b"
| "truthy (JInt i) = (i \<noteq> 0)"
| "truthy (JFloat x) = (x \<noteq> Fin 0)"
| "truthy (JString s) = (s \<noteq> [])"
| "truthy (JArray xs) = (xs \<noteq> [])"
| "truthy (JObject kvs) = (kvs \<noteq> [])"

fun isinstance_bool :: "json \<Rightarrow> bool" where
  "isinstance_bool (JBool b) = True"
| "isinstance_bool _ = False"

definition handle_quote_request_accept ::
  "PackagingSystem \<Rightarrow> int option \<Rightarrow> json \<Rightarrow> (message \<times> nat) \<times> PackagingSystem" where
  "handle_quote_request_accept psystem oid answer =
     (let return_code = 200;
          return_msg = OrderSetTo oid (truthy answer);
          (return_msg, return_code, answer) =
            (if \<not> isinstance_bool answer then (AnswerNotTrueFalse, 400, JBool False)
             else (return_msg, return_code, answer))
      in ((return_msg, return_code), quote_reply psystem oid (truthy answer)))"

subsection \<open>Pricing\<close>

text \<open>
  The loops over the rate tables, each with the value its variable has before the loop:
  \<^verbatim>\<open>distance_mult = 1\<close>, \<^verbatim>\<open>quality_mult = 0\<close>, \<^verbatim>\<open>weight_mult = 1.0\<close>, \<^verbatim>\<open>bonus = 0.0\<close>.
\<close>

definition distance_mult_of :: "PackagingSystem \<Rightarrow> pyfloat \<Rightarrow> pyfloat" where
  "distance_mult_of self miles =
     foldl (\<lambda>distance_mult d. if fle (min_distance d) miles then distance_multiplier d
                               else distance_mult)
       (Fin 1) (distance self)"

definition quality_mult_of :: "PackagingSystem \<Rightarrow> pyfloat \<Rightarrow> pyfloat" where
  "quality_mult_of self q =
     foldl (\<lambda>quality_mult t. if fle q (max_percent t) then quality_multiplier t
                              else quality_mult)
       (Fin 0) (qualities self)"

text \<open>The weight loop leaves at the first match (\<^verbatim>\<open>break\<close>).\<close>

fun weight_loop :: "pyfloat \<Rightarrow> weight_tier list \<Rightarrow> pyfloat" where
  "weight_loop total_weight [] = Fin 1"
| "weight_loop total_weight (w # ws) =
     (if fle total_weight (max_weight w) then weight_multiplier w
      else weight_loop total_weight ws)"

definition bonus_of :: "PackagingSystem \<Rightarrow> nat \<Rightarrow> pyfloat" where
  "bonus_of self n =
     foldl (\<lambda>b t. if int_ge_float (int n) (min_packages t) then percent t else b)
       (Fin 0) (bonus self)"

text \<open>The variables that the loop over the packages updates.\<close>

record tally =
  total_to_pay :: pyfloat
  total_weight :: pyfloat
  battery_types :: "string list"
  battery_weights :: "pyfloat list"
  battery_values :: "pyfloat list"
  battery_qualities :: "pyfloat list"

definition tally0 :: tally where
  "tally0 = \<lparr>total_to_pay = Fin 0, total_weight = Fin 0, battery_types = [],
     battery_weights = [], battery_values = [], battery_qualities = []\<rparr>"

text \<open>
  The loop over \<^verbatim>\<open>order.packages\<close>. \<^verbatim>\<open>self.battery_base_value[package.battery_type]\<close>
  raises \<^verbatim>\<open>KeyError\<close> for a type that is not a key of the table.
\<close>

fun package_loop :: "PackagingSystem \<Rightarrow> BatteryPackage list \<Rightarrow> tally \<Rightarrow> exn + tally" where
  "package_loop self [] t = Inr t"
| "package_loop self (package # ps) t =
     (let quality_mult = quality_mult_of self (quality package) in
      case map_of (battery_base_value self) (battery_type package) of
        None \<Rightarrow> Inl (KeyError (battery_type package))
      | Some base \<Rightarrow>
          package_loop self ps
            (t\<lparr>total_to_pay := fadd (total_to_pay t) (fmul base quality_mult),
               total_weight := fadd (total_weight t) (battery_weight package),
               battery_types := battery_types t @ [battery_type package],
               battery_weights := battery_weights t @ [battery_weight package],
               battery_values := battery_values t @ [fmul base quality_mult],
               battery_qualities := battery_qualities t @ [quality package]\<rparr>))"

definition base_shipping_of :: "PackagingSystem \<Rightarrow> Order \<Rightarrow> pyfloat" where
  "base_shipping_of self order =
     fmul (distance_to_ship order) (distance_mult_of self (distance_to_ship order))"

definition shipping_deduction :: "PackagingSystem \<Rightarrow> Order \<Rightarrow> tally \<Rightarrow> pyfloat" where
  "shipping_deduction self order t =
     fmul (base_shipping_of self order) (weight_loop (total_weight t) (weights self))"

definition subtotal :: "PackagingSystem \<Rightarrow> Order \<Rightarrow> tally \<Rightarrow> pyfloat" where
  "subtotal self order t = fsub (total_to_pay t) (shipping_deduction self order t)"

text \<open>The total before \<^verbatim>\<open>round(max([total_to_pay, 100.00]), 2)\<close>.\<close>

definition unfloored_total :: "PackagingSystem \<Rightarrow> Order \<Rightarrow> tally \<Rightarrow> pyfloat" where
  "unfloored_total self order t =
     (let s = subtotal self order t; b = bonus_of self (length (packages order))
      in fadd s (fmul s (fdiv_100 b)))"

definition floored_total :: "PackagingSystem \<Rightarrow> Order \<Rightarrow> tally \<Rightarrow> pyfloat" where
  "floored_total self order t = round2 (py_max2 (unfloored_total self order t) (Fin 100))"

definition build_df :: "PackagingSystem \<Rightarrow> Order \<Rightarrow> tally \<Rightarrow> dataframe" where
  "build_df self order t =
     (let n = length (battery_types t);
          blanks = replicate n (Text [])
      in [(''Battery Type'', map Text (battery_types t) @ [Text []]),
          (''Weight'', map Number (battery_weights t) @ [Sum (battery_weights t)]),
          (''Quality'', map Number (battery_qualities t) @ [Text []]),
          (''Assessed Value'', map Number (battery_values t) @ [Sum (battery_values t)]),
          (''Bonus'', blanks @ [Percent (bonus_of self (length (packages order)))]),
          (''Shipping'', blanks @ [Number (base_shipping_of self order)]),
          (''Total'', blanks @ [Number (floored_total self order t)])])"

text \<open>
  \<^verbatim>\<open>PackagingSystem.quote\<close>: the value returned or the exception raised, and the
  system after the call.
\<close>

definition quote :: "PackagingSystem \<Rightarrow> int option \<Rightarrow> (exn + quote_result) \<times> PackagingSystem" where
  "quote self oid =
     (case map_of (orders self) oid of
        None \<Rightarrow> (Inr NoQuote, self)
      | Some order \<Rightarrow>
          (case total_cost order of
             Some c \<Rightarrow> (Inr (CachedCost c), self)
           | None \<Rightarrow>
               (case package_loop self (packages order) tally0 of
                  Inl e \<Rightarrow> (Inl e, self)
                | Inr t \<Rightarrow>
                    (let total = floored_total self order t;
                         frame = build_df self order t
                     in (Inr (Frame frame),
                         self\<lparr>orders :=
                           AList.map_entry oid
                             (\<lambda>ord. ord\<lparr>total_cost := Some total, df := Some frame\<rparr>)
                             (orders self)\<rparr>)))))"

section \<open>The match directions in the specification's words\<close>

text \<open>
  The last element of a table that satisfies \<open>P\<close> decides, or the first one does; \<open>d\<close>
  is the value when no element satisfies \<open>P\<close>.
\<close>

definition spec_last_match :: "('a \<Rightarrow> bool) \<Rightarrow> ('a \<Rightarrow> 'b) \<Rightarrow> 'b \<Rightarrow> 'a list \<Rightarrow> 'b" where
  "spec_last_match P f d xs = (case filter P xs of [] \<Rightarrow> d | ts \<Rightarrow> f (last ts))"

definition spec_first_match :: "('a \<Rightarrow> bool) \<Rightarrow> ('a \<Rightarrow> 'b) \<Rightarrow> 'b \<Rightarrow> 'a list \<Rightarrow> 'b" where
  "spec_first_match P f d xs = (case List.find P xs of None \<Rightarrow> d | Some x \<Rightarrow> f x)"

section \<open>The search criterion in the specification's words\<close>

text \<open>
  An order matches a search when its location equals the given location and, if a date
  is given, its date equals the given date.
\<close>

definition matches :: "LocationInformation \<Rightarrow> DateInformation option \<Rightarrow> Order \<Rightarrow> bool" where
  "matches l dt ord \<longleftrightarrow>
     Location_eq l (location ord) \<and> (case dt of None \<Rightarrow> True | Some d \<Rightarrow> Date_eq d (date ord))"

section \<open>Example data\<close>

definition loc_va :: LocationInformation where
  "loc_va = \<lparr>state = Some ''Virginia'', city = Some ''Virginia Beach'',
     street_address = Some ''123 Example Street'', zip_code = Some ''12345''\<rparr>"

definition loc_nozip :: LocationInformation where
  "loc_nozip = loc_va\<lparr>zip_code := None\<rparr>"

definition date_sep20 :: DateInformation where
  "date_sep20 = \<lparr>day = Some 20, month = Some 9, year = Some 2023\<rparr>"

definition date_sep21 :: DateInformation where
  "date_sep21 = \<lparr>day = Some 21, month = Some 9, year = Some 2023\<rparr>"

definition li_ion_pkg :: BatteryPackage where
  "li_ion_pkg = \<lparr>battery_type = ''li-ion'', battery_weight = Fin 1, quality = Fin 75,
     return_reason = ''old''\<rparr>"

definition nicd_pkg :: BatteryPackage where
  "nicd_pkg = \<lparr>battery_type = ''NiCd'', battery_weight = Fin 2, quality = Fin 40,
     return_reason = ''leak''\<rparr>"

definition order_4 :: Order where
  "order_4 = Order_init (Some 4) (Some loc_va) (Some date_sep20) [li_ion_pkg]"

definition order_5 :: Order where
  "order_5 =
     (Order_init (Some 5) (Some loc_va) (Some date_sep21) [])\<lparr>distance_to_ship := Fin 500\<rparr>"

definition order_7 :: Order where
  "order_7 = Order_init (Some 7) (Some loc_nozip) None [li_ion_pkg, nicd_pkg]"

definition psystem :: PackagingSystem where
  "psystem =
     \<lparr>qualities = [\<lparr>max_percent = Fin 50, quality_multiplier = Fin (1 / 2)\<rparr>,
                   \<lparr>max_percent = Fin 100, quality_multiplier = Fin 1\<rparr>],
      weights = [\<lparr>max_weight = Fin 10, weight_multiplier = Fin (1 / 2)\<rparr>,
                 \<lparr>max_weight = Fin 999, weight_multiplier = Fin 1\<rparr>],
      battery_base_value = [(''li-ion'', Fin 400)],
      distance = [\<lparr>min_distance = Fin 0, distance_multiplier = Fin 1\<rparr>,
                  \<lparr>min_distance = Fin 100, distance_multiplier = Fin 2\<rparr>],
      bonus = [\<lparr>min_packages = Fin 2, percent = Fin 5\<rparr>],
      orders = [(Some 4, order_4), (Some 5, order_5), (Some 7, order_7)]\<rparr>"

text \<open>The data frames and the systems that quoting orders 4 and 5 of \<open>psystem\<close> gives.\<close>

definition frame_4 :: dataframe where
  "frame_4 =
     [(''Battery Type'', [Text ''li-ion'', Text []]),
      (''Weight'', [Number (Fin 1), Sum [Fin 1]]),
      (''Quality'', [Number (Fin 75), Text []]),
      (''Assessed Value'', [Number (Fin 400), Sum [Fin 400]]),
      (''Bonus'', [Text [], Percent (Fin 0)]),
      (''Shipping'', [Text [], Number (Fin 0)]),
      (''Total'', [Text [], Number (Fin 400)])]"

definition frame_5 :: dataframe where
  "frame_5 =
     [(''Battery Type'', [Text []]),
      (''Weight'', [Sum []]),
      (''Quality'', [Text []]),
      (''Assessed Value'', [Sum []]),
      (''Bonus'', [Percent (Fin 0)]),
      (''Shipping'', [Number (Fin 1000)]),
      (''Total'', [Number (Fin 100)])]"

definition psystem_q4 :: PackagingSystem where
  "psystem_q4 = psystem\<lparr>orders :=
     [(Some 4, order_4\<lparr>total_cost := Some (Fin 400), df := Some frame_4\<rparr>),
      (Some 5, order_5), (Some 7, order_7)]\<rparr>"

definition psystem_q5 :: PackagingSystem where
  "psystem_q5 = psystem\<lparr>orders :=
     [(Some 4, order_4),
      (Some 5, order_5\<lparr>total_cost := Some (Fin 100), df := Some frame_5\<rparr>),
      (Some 7, order_7)]\<rparr>"

text \<open>\<open>psystem\<close> after order 4 has been accepted.\<close>

definition psystem_accepted :: PackagingSystem where
  "psystem_accepted = psystem\<lparr>orders :=
     [(Some 4, order_4\<lparr>accepted := True\<rparr>), (Some 5, order_5), (Some 7, order_7)]\<rparr>"

text \<open>
  Two orders to be shipped over \<open>2 ^ 1023\<close> miles, a float of about \<open>8.99e307\<close>, under the
  rate tables of \<open>psystem\<close>: order 8 with one package, order 9 with none.
\<close>

definition order_8 :: Order where
  "order_8 =
     (Order_init (Some 8) (Some loc_va) (Some date_sep21) [li_ion_pkg])
       \<lparr>distance_to_ship := Fin (2 ^ 1023)\<rparr>"

definition order_9 :: Order where
  "order_9 =
     (Order_init (Some 9) (Some loc_va) (Some date_sep21) [])
       \<lparr>distance_to_ship := Fin (2 ^ 1023)\<rparr>"

definition tally_8 :: tally where
  "tally_8 = \<lparr>total_to_pay = Fin 400, total_weight = Fin 1, battery_types = [''li-ion''],
     battery_weights = [Fin 1], battery_values = [Fin 400], battery_qualities = [Fin 75]\<rparr>"

definition psystem_far :: PackagingSystem where
  "psystem_far = psystem\<lparr>orders := [(Some 8, order_8), (Some 9, order_9)]\<rparr>"

section \<open>Rounding to a float\<close>

lemma expo_from_range: "- 1022 \<le> expo_from n a \<and> expo_from n a \<le> int n - 1022"
  by (induction n) auto

lemma expo_from_lower: "- 1022 < expo_from n a \<Longrightarrow> 2 powi (expo_from n a) \<le> a"
  by (induction n) (auto split: if_splits)

lemma expo_from_upper: "expo_from n a < int n - 1022 \<Longrightarrow> a < 2 powi (expo_from n a + 1)"
proof (induction n)
  case 0
  then show ?case by simp
next
  case (Suc n)
  show ?case
  proof (cases "2 powi (int (Suc n) - 1022) \<le> a")
    case True
    with Suc.prems show ?thesis by simp
  next
    case False
    then have e: "expo_from (Suc n) a = expo_from n a" by simp
    show ?thesis
    proof (cases "expo_from n a < int n - 1022")
      case True
      with Suc.IH e show ?thesis by simp
    next
      case False
      with expo_from_range [of n a] have "expo_from n a = int n - 1022" by simp
      then have "expo_from (Suc n) a + 1 = int (Suc n) - 1022" using e by simp
      with \<open>\<not> 2 powi (int (Suc n) - 1022) \<le> a\<close> show ?thesis
        by (simp only: not_le)
    qed
  qed
qed

lemma expo_range: "- 1022 \<le> expo x" "expo x \<le> 1023"
  using expo_from_range [of "Suc 2044" "\<bar>x\<bar>"] by (simp_all add: expo_def)

lemma expo_lower: "- 1022 < expo x \<Longrightarrow> 2 powi (expo x) \<le> \<bar>x\<bar>"
  unfolding expo_def by (rule expo_from_lower)

lemma expo_upper: "expo x < 1023 \<Longrightarrow> \<bar>x\<bar> < 2 powi (expo x + 1)"
  unfolding expo_def by (rule expo_from_upper) simp

lemma round_half_even_of_int [simp]: "round_half_even (of_int k) = k"
  by (simp add: round_half_even_def)

lemma round_half_even_ge_floor: "\<lfloor>x\<rfloor> \<le> round_half_even x"
  by (simp add: round_half_even_def Let_def)

lemma round_half_even_le_ceiling: "round_half_even x \<le> \<lceil>x\<rceil>"
  unfolding round_half_even_def Let_def by (auto simp: ceiling_altdef) 


lemma two_powi_less_cancel:
  assumes "(2::real) powi a < 2 powi b"
  shows "a < b"
proof (rule ccontr)
  assume "\<not> a < b"
  then have "b \<le> a" by simp
  then have "(2::real) powi b \<le> 2 powi a" by (intro power_int_increasing) auto
  with assms show False by simp
qed

lemma expo_from_hit:
  "2 powi (int (Suc n) - 1022) \<le> a \<Longrightarrow> expo_from (Suc n) a = int (Suc n) - 1022"
  by simp

lemma rnd_exact:
  assumes m: "\<bar>m\<bar> < 2 ^ 53" and j: "- 1074 \<le> j" "j \<le> 971"
  shows "rnd (of_int m * 2 powi j) = Fin (of_int m * 2 powi j)"
proof -
  let ?x = "of_int m * 2 powi j :: real"
  let ?e = "expo ?x"
  have absx: "\<bar>?x\<bar> = of_int \<bar>m\<bar> * 2 powi j" by (simp add: abs_mult)
  have "of_int \<bar>m\<bar> < (2 ^ 53 :: real)" using m by (metis of_int_less_numeral_power_cancel_iff)
  then have lt: "\<bar>?x\<bar> < 2 powi (53 + j)"
    unfolding absx by (simp add: power_int_add)
  have e_le: "?e \<le> j + 52"
  proof (cases "- 1022 < ?e")
    case True
    then have "2 powi ?e \<le> \<bar>?x\<bar>" by (rule expo_lower)
    with lt have "(2::real) powi ?e < 2 powi (53 + j)" by linarith
    then have "?e < 53 + j" by (rule two_powi_less_cancel)
    then show ?thesis by simp
  next
    case False
    with expo_range(1) [of ?x] have "?e = - 1022" by simp
    with j show ?thesis by simp
  qed
  define d where "d = nat (j + 52 - ?e)"
  have d: "int d = j + 52 - ?e" using e_le by (simp add: d_def)
  have "?x / 2 powi (?e - 52) = of_int m * 2 powi (j - (?e - 52))"
    by (simp add: power_int_diff)
  also have "j - (?e - 52) = int d" using d by simp
  finally have quot: "?x / 2 powi (?e - 52) = of_int (m * 2 ^ d)" by simp
  have bk: "of_int (m * 2 ^ d) * 2 powi (?e - 52) = ?x"
  proof -
    have "of_int (m * 2 ^ d) * 2 powi (?e - 52) =
        (of_int m :: real) * (2 powi (int d) * 2 powi (?e - 52))"
      by (simp add: mult.assoc)
    also have "2 powi (int d) * 2 powi (?e - 52) = (2::real) powi (int d + (?e - 52))"
      by (simp add: power_int_add)
    also have "int d + (?e - 52) = j" using d by simp
    finally show ?thesis .
  qed
  have "2 powi (53 + j) \<le> (2::real) powi 1024"
    using j by (intro power_int_increasing) auto
  with lt have b: "\<bar>?x\<bar> < 2 ^ 1024" by simp
  then have "\<not> 2 ^ 1024 \<le> ?x" "\<not> ?x \<le> - (2 ^ 1024)" by linarith+
  then show ?thesis
    unfolding rnd_def Let_def quot round_half_even_of_int bk by simp
qed

lemma rnd_of_int: "\<bar>i\<bar> < 2 ^ 53 \<Longrightarrow> rnd (of_int i) = Fin (of_int i)"
  using rnd_exact [of i 0] by simp

lemma rnd_0 [simp]: "rnd 0 = Fin 0"
  using rnd_of_int [of 0] by simp

lemma rnd_1 [simp]: "rnd 1 = Fin 1"
  using rnd_of_int [of 1] by simp

lemma rnd_numeral: "(numeral n :: int) < 2 ^ 53 \<Longrightarrow> rnd (numeral n) = Fin (numeral n)"
  using rnd_of_int [of "numeral n"] by simp

lemma rnd_neg_numeral:
  "(numeral n :: int) < 2 ^ 53 \<Longrightarrow> rnd (- numeral n) = Fin (- numeral n)"
  using rnd_of_int [of "- numeral n"] by simp

lemma rnd_overflow:
  assumes "2 ^ 1024 \<le> x"
  shows "rnd x = PInf"
proof -
  have x: "(2::real) ^ 1023 \<le> \<bar>x\<bar>"
  proof -
    have "(2::real) ^ 1023 \<le> 2 ^ 1024" by simp
    with assms show ?thesis by linarith
  qed
  have e: "expo x = 1023"
    using expo_from_hit [of 2044 "\<bar>x\<bar>"] x by (simp add: expo_def)
  have "(2::real) ^ 53 = 2 ^ 1024 / 2 ^ 971" by (simp flip: power_diff)
  also have "\<dots> \<le> x / 2 ^ 971" using assms by (simp add: divide_right_mono)
  finally have "of_int (2 ^ 53) \<le> x / 2 ^ 971" by simp
  then have "(2 ^ 53 :: int) \<le> \<lfloor>x / 2 ^ 971\<rfloor>" by (simp only: le_floor_iff)
  with round_half_even_ge_floor [of "x / 2 ^ 971"]
  have "(2 ^ 53 :: int) \<le> round_half_even (x / 2 ^ 971)" by linarith
  then have "(2::real) ^ 53 \<le> of_int (round_half_even (x / 2 ^ 971))"
    by (metis of_int_le_iff of_int_numeral of_int_power)
  then have "(2::real) ^ 53 * 2 ^ 971 \<le> of_int (round_half_even (x / 2 ^ 971)) * 2 ^ 971"
    by (simp only: mult_le_cancel_right) simp
  moreover have "(2::real) ^ 53 * 2 ^ 971 = 2 ^ 1024" by (simp flip: power_add)
  ultimately show ?thesis
    by (simp add: rnd_def e Let_def)
qed

lemma rnd_nonneg:
  assumes "0 \<le> x"
  shows "rnd x = PInf \<or> (\<exists>y\<ge>0. rnd x = Fin y)"
proof -
  let ?q = "2 powi (expo x - 52) :: real"
  have q: "0 < ?q" by simp
  then have "0 \<le> x / ?q" using assms by simp
  then have "0 \<le> \<lfloor>x / ?q\<rfloor>" by simp
  with round_half_even_ge_floor [of "x / ?q"] have "0 \<le> round_half_even (x / ?q)" by linarith
  then have "0 \<le> of_int (round_half_even (x / ?q)) * ?q" using q by simp
  then show ?thesis by (simp add: rnd_def Let_def)
qed

lemma rnd_nonpos:
  assumes "x \<le> 0"
  shows "rnd x = NInf \<or> (\<exists>y\<le>0. rnd x = Fin y)"
proof -
  let ?q = "2 powi (expo x - 52) :: real"
  have q: "0 < ?q" by simp
  then have "x / ?q \<le> 0" using assms by (simp add: divide_le_0_iff)
  then have "\<lceil>x / ?q\<rceil> \<le> 0" by (simp add: ceiling_le_iff)
  with round_half_even_le_ceiling [of "x / ?q"] have "round_half_even (x / ?q) \<le> 0" by linarith
  then have "of_int (round_half_even (x / ?q)) * ?q \<le> 0" using q
    by (simp add: mult_le_0_iff)
  moreover have "(0::real) < 2 ^ 1024" by simp
  ultimately have "\<not> 2 ^ 1024 \<le> of_int (round_half_even (x / ?q)) * ?q" by linarith
  with \<open>of_int (round_half_even (x / ?q)) * ?q \<le> 0\<close> show ?thesis
    by (simp add: rnd_def Let_def)
qed


lemma rnd_ge_100:
  assumes "100 \<le> x"
  shows "rnd x = PInf \<or> (\<exists>y\<ge>100. rnd x = Fin y)"
proof -
  let ?e = "expo x"
  let ?q = "2 powi (?e - 52) :: real"
  let ?y = "of_int (round_half_even (x / ?q)) * ?q"
  have q: "0 < ?q" by simp
  have absx: "\<bar>x\<bar> = x" using assms by simp
  have lo: "- 1022 < ?e"
  proof (rule ccontr)
    assume "\<not> - 1022 < ?e"
    then have "?e < 1023" by simp
    then have "\<bar>x\<bar> < 2 powi (?e + 1)" by (rule expo_upper)
    also have "\<dots> \<le> 2 powi 0" using \<open>\<not> - 1022 < ?e\<close> by (intro power_int_increasing) auto
    finally show False using assms by simp
  qed
  then have pe: "2 powi ?e \<le> x" using expo_lower [of x] absx by simp
  have "100 \<le> ?y"
  proof (cases "?e \<le> 52")
    case True
    define d where "d = nat (52 - ?e)"
    have d: "int d = 52 - ?e" using True by (simp add: d_def)
    have "100 / ?q = 100 * 2 powi (- (?e - 52))"
      by (simp only: power_int_minus divide_inverse)
    also have "- (?e - 52) = int d" using d by simp
    finally have c: "100 / ?q = of_int (100 * 2 ^ d)" by simp
    have "100 / ?q \<le> x / ?q" using assms q by (simp add: divide_right_mono)
    then have "of_int (100 * 2 ^ d) \<le> x / ?q" unfolding c .
    then have "100 * 2 ^ d \<le> \<lfloor>x / ?q\<rfloor>" by (simp only: le_floor_iff)
    with round_half_even_ge_floor [of "x / ?q"]
    have "100 * 2 ^ d \<le> round_half_even (x / ?q)" by linarith
    then have "(of_int (100 * 2 ^ d) :: real) \<le> of_int (round_half_even (x / ?q))"
      by (simp only: of_int_le_iff)
    then have a: "of_int (100 * 2 ^ d) * ?q \<le> ?y" by (rule mult_right_mono) simp
    have "of_int (100 * 2 ^ d) * ?q = 100 / ?q * ?q" by (simp only: c)
    also have "\<dots> = 100" using q by simp
    finally have b: "of_int (100 * 2 ^ d) * ?q = 100" .
    from a show ?thesis by (simp only: b)
  next
    case False
    have "(2::real) powi 52 = 2 powi ?e / ?q" by (simp add: power_int_diff)
    also have "\<dots> \<le> x / ?q" using pe q by (simp add: divide_right_mono)
    finally have "of_int (2 ^ 52) \<le> x / ?q" by simp
    then have "(2 ^ 52 :: int) \<le> \<lfloor>x / ?q\<rfloor>" by (simp only: le_floor_iff)
    with round_half_even_ge_floor [of "x / ?q"]
    have "(2 ^ 52 :: int) \<le> round_half_even (x / ?q)" by linarith
    then have "(of_int (2 ^ 52) :: real) \<le> of_int (round_half_even (x / ?q))"
      by (simp only: of_int_le_iff)
    then have a: "of_int (2 ^ 52) * ?q \<le> ?y" by (rule mult_right_mono) simp
    have "of_int (2 ^ 52) * ?q = 2 powi ?e / ?q * ?q"
      by (simp only: \<open>(2::real) powi 52 = 2 powi ?e / ?q\<close> [symmetric]) simp
    also have "\<dots> = 2 powi ?e" using q by simp
    finally have b: "of_int (2 ^ 52) * ?q = 2 powi ?e" .
    have "(100::real) \<le> 2 powi 53" by simp
    also have "(2::real) powi 53 \<le> 2 powi ?e"
      using False by (intro power_int_increasing) auto
    finally have "100 \<le> of_int (2 ^ 52) * ?q" by (simp only: b)
    with a show ?thesis by linarith
  qed
  then have "\<not> ?y \<le> - (2 ^ 1024)" by simp
  with \<open>100 \<le> ?y\<close> show ?thesis by (simp add: rnd_def Let_def)
qed

lemma round_half_even_nearest: "\<bar>of_int (round_half_even x) - x\<bar> \<le> 1 / 2"
  unfolding round_half_even_def Let_def by (auto simp: abs_if) linarith+

lemma two_powi_add: "(2::real) powi a * 2 powi b = 2 powi (a + b)"
  by (simp add: power_int_add)

lemma two_powi_53: "(2::real) ^ 53 * 2 powi (e - 52) = 2 powi (e + 1)"
  using two_powi_add [of 53 "e - 52"] by (simp add: add.commute)

lemma two_powi_double: "2 * (2::real) powi (e - 52) = 2 powi (e - 51)"
  using two_powi_add [of 1 "e - 52"] by simp

lemma round_half_even_bounds:
  assumes "- of_int k \<le> x" "x \<le> of_int k"
  shows "- k \<le> round_half_even x" "round_half_even x \<le> k"
proof -
  have "- k \<le> \<lfloor>x\<rfloor>" using assms(1) by (simp add: le_floor_iff)
  with round_half_even_ge_floor [of x] show "- k \<le> round_half_even x" by linarith
  have "\<lceil>x\<rceil> \<le> k" using assms(2) by (simp add: ceiling_le_iff)
  with round_half_even_le_ceiling [of x] show "round_half_even x \<le> k" by linarith
qed

lemma rnd_mantissa:
  assumes "rnd x = Fin y"
  shows "y = of_int (round_half_even (x / 2 powi (expo x - 52))) * 2 powi (expo x - 52)"
    and "\<bar>y\<bar> < 2 ^ 1024"
  using assms by (auto simp: rnd_def Let_def split: if_splits)

lemma rnd_idem:
  assumes "rnd x = Fin y"
  shows "rnd y = Fin y" and "rnd (- y) = Fin (- y)"
proof -
  let ?e = "expo x"
  let ?q = "2 powi (?e - 52) :: real"
  let ?m = "round_half_even (x / ?q)"
  have y: "y = of_int ?m * ?q" and fin: "\<bar>y\<bar> < 2 ^ 1024"
    using rnd_mantissa [OF assms] by simp_all
  have q: "0 < ?q" by simp
  have e: "- 1022 \<le> ?e" "?e \<le> 1023" by (rule expo_range)+
  have m: "\<bar>?m\<bar> \<le> 2 ^ 53"
  proof (cases "?e < 1023")
    case True
    then have "\<bar>x\<bar> < 2 powi (?e + 1)" by (rule expo_upper)
    also have "\<dots> = 2 ^ 53 * ?q" by (simp only: two_powi_53)
    finally have "\<bar>x\<bar> / ?q < 2 ^ 53" using q by (simp add: field_simps)
    then have "\<bar>x / ?q\<bar> < of_int (2 ^ 53)" using q by (simp add: abs_divide)
    then have "- of_int (2 ^ 53) \<le> x / ?q" "x / ?q \<le> of_int (2 ^ 53)" by linarith+
    from round_half_even_bounds [OF this] show ?thesis by linarith
  next
    case False
    with e have e1023: "?e = 1023" by simp
    have "\<bar>y\<bar> = of_int \<bar>?m\<bar> * ?q" using q by (simp add: y abs_mult)
    with fin have "of_int \<bar>?m\<bar> * ?q < 2 ^ 1024" by simp
    moreover have "(2::real) ^ 1024 = 2 ^ 53 * ?q" by (simp add: e1023 flip: power_add)
    ultimately have "of_int \<bar>?m\<bar> * ?q < 2 ^ 53 * ?q" by simp
    then have "(of_int \<bar>?m\<bar> :: real) < 2 ^ 53" using q by (simp only: mult_less_cancel_right_pos)
    then have "\<bar>?m\<bar> < 2 ^ 53" by (metis of_int_less_numeral_power_cancel_iff)
    then show ?thesis by simp
  qed
  have j: "- 1074 \<le> ?e - 52" "?e - 52 \<le> 971" using e by simp_all
  have both: "rnd (of_int k * ?q) = Fin (of_int k * ?q)" if "\<bar>k\<bar> = \<bar>?m\<bar>" for k
  proof (cases "\<bar>k\<bar> < 2 ^ 53")
    case True
    then show ?thesis using j by (intro rnd_exact)
  next
    case False
    with m that have k: "\<bar>k\<bar> = 2 ^ 53" by simp
    have lt: "?e < 1023"
    proof (rule ccontr)
      assume "\<not> ?e < 1023"
      with e have e1023: "?e = 1023" by simp
      have "\<bar>y\<bar> = of_int \<bar>?m\<bar> * ?q" using q by (simp add: y abs_mult)
      also have "\<dots> = 2 ^ 53 * 2 ^ 971" using k that by (simp add: e1023)
      also have "\<dots> = (2::real) ^ 1024" by (simp flip: power_add)
      finally show False using fin by simp
    qed
    define h :: int where "h = (if 0 \<le> k then 2 ^ 52 else - (2 ^ 52))"
    have kh: "k = 2 * h" using k by (auto simp: h_def abs_if split: if_splits)
    have h: "\<bar>h\<bar> < 2 ^ 53" by (simp add: h_def)
    have "of_int k * ?q = of_int h * (2 * ?q)" by (simp add: kh)
    also have "2 * ?q = 2 powi (?e - 51)" by (rule two_powi_double)
    finally have eq: "of_int k * ?q = of_int h * 2 powi (?e - 51)" .
    have "rnd (of_int h * 2 powi (?e - 51)) = Fin (of_int h * 2 powi (?e - 51))"
      using h e lt by (intro rnd_exact) simp_all
    then show ?thesis by (simp only: eq)
  qed
  from both [of ?m] show "rnd y = Fin y" by (simp add: y)
  from both [of "- ?m"] show "rnd (- y) = Fin (- y)" by (simp add: y)
qed

lemma rnd_finite:
  assumes "\<bar>x\<bar> < 2 ^ 1023"
  shows "\<exists>y. rnd x = Fin y"
proof -
  let ?e = "expo x"
  let ?q = "2 powi (?e - 52) :: real"
  let ?m = "round_half_even (x / ?q)"
  have q: "0 < ?q" by simp
  have e: "?e < 1023"
  proof (rule ccontr)
    assume "\<not> ?e < 1023"
    with expo_range [of x] have e1023: "?e = 1023" by simp
    then have "2 powi ?e \<le> \<bar>x\<bar>" by (intro expo_lower) simp
    with assms show False by (simp add: e1023)
  qed
  then have "\<bar>x\<bar> < 2 powi (?e + 1)" by (rule expo_upper)
  also have "\<dots> = 2 ^ 53 * ?q" by (simp only: two_powi_53)
  finally have "\<bar>x\<bar> / ?q < 2 ^ 53" using q by (simp add: field_simps)
  then have "\<bar>x / ?q\<bar> < of_int (2 ^ 53)" using q by (simp add: abs_divide)
  then have "- of_int (2 ^ 53) \<le> x / ?q" "x / ?q \<le> of_int (2 ^ 53)" by linarith+
  from round_half_even_bounds [OF this] have "\<bar>?m\<bar> \<le> 2 ^ 53" by linarith
  then have "(of_int \<bar>?m\<bar> :: real) \<le> 2 ^ 53" by (metis of_int_le_numeral_power_cancel_iff)
  then have "of_int \<bar>?m\<bar> * ?q \<le> 2 ^ 53 * ?q" using q by (simp only: mult_le_cancel_right_pos)
  also have "2 ^ 53 * ?q = 2 powi (?e + 1)" by (rule two_powi_53)
  also have "\<dots> \<le> 2 powi 1023" using e by (intro power_int_increasing) auto
  finally have "\<bar>of_int ?m * ?q\<bar> \<le> 2 ^ 1023" using q by (simp add: abs_mult)
  moreover have "(2::real) ^ 1023 < 2 ^ 1024" by simp
  ultimately have "\<bar>of_int ?m * ?q\<bar> < 2 ^ 1024" by linarith
  then have "\<not> 2 ^ 1024 \<le> of_int ?m * ?q" "\<not> of_int ?m * ?q \<le> - (2 ^ 1024)" by linarith+
  then show ?thesis by (simp add: rnd_def Let_def)
qed


lemma rnd_nearest:
  assumes "rnd x = Fin y"
  shows "\<bar>y - x\<bar> \<le> 2 powi (expo x - 53)"
proof -
  let ?q = "2 powi (expo x - 52) :: real"
  let ?m = "round_half_even (x / ?q)"
  have q: "0 < ?q" by simp
  have y: "y = of_int ?m * ?q" using rnd_mantissa(1) [OF assms] .
  have "y - x = (of_int ?m - x / ?q) * ?q" using q by (simp add: y algebra_simps)
  then have "\<bar>y - x\<bar> = \<bar>of_int ?m - x / ?q\<bar> * ?q" using q by (simp add: abs_mult)
  also have "\<dots> \<le> 1 / 2 * ?q"
    using round_half_even_nearest [of "x / ?q"] q by (intro mult_right_mono) simp_all
  also have "1 / 2 * ?q = 2 powi (- 1) * ?q" by simp
  also have "\<dots> = 2 powi (- 1 + (expo x - 52))" by (rule two_powi_add)
  finally show ?thesis by simp
qed

lemma expo_eq:
  assumes e: "- 1022 < e" "e \<le> 1023" and lo: "2 powi e \<le> \<bar>x\<bar>" and hi: "\<bar>x\<bar> < 2 powi (e + 1)"
  shows "expo x = e"
proof -
  have "expo x < e + 1"
  proof (cases "- 1022 < expo x")
    case True
    then have "2 powi expo x \<le> \<bar>x\<bar>" by (rule expo_lower)
    with hi have "(2::real) powi expo x < 2 powi (e + 1)" by linarith
    then show ?thesis by (rule two_powi_less_cancel)
  next
    case False
    with e show ?thesis by simp
  qed
  moreover have "e < expo x + 1"
  proof (cases "expo x < 1023")
    case True
    then have "\<bar>x\<bar> < 2 powi (expo x + 1)" by (rule expo_upper)
    with lo have "(2::real) powi e < 2 powi (expo x + 1)" by linarith
    then show ?thesis by (rule two_powi_less_cancel)
  next
    case False
    with expo_range(2) [of x] e show ?thesis by simp
  qed
  ultimately show ?thesis by simp
qed

text \<open>
  The floats nearest to 0.1 and 0.2 add up to a tie between two floats, which goes to the
  even one: \<^verbatim>\<open>0.1 + 0.2\<close> is \<^verbatim>\<open>0.30000000000000004\<close>, the float after the one nearest to
  0.3 (which is \<open>5404319552844595 / 2 ^ 54\<close>).
\<close>

lemma fadd_tenth_fifth:
  "fadd (Fin (3602879701896397 / 2 ^ 55)) (Fin (3602879701896397 / 2 ^ 54)) =
     Fin (5404319552844596 / 2 ^ 54)"
proof -
  let ?x = "3602879701896397 / 2 ^ 55 + 3602879701896397 / 2 ^ 54 :: real"
  have e: "expo ?x = - 2"
    by (rule expo_eq) (simp_all add: power_int_minus)
  have q: "?x / 2 powi (- 2 - 52) = 10808639105689191 / 2"
    by (simp add: power_int_minus)
  have r: "round_half_even (10808639105689191 / 2) = 5404319552844596"
    by (simp add: round_half_even_def)
  show ?thesis
    by (simp only: fadd.simps rnd_def e q r Let_def) (simp add: power_int_minus)
qed

section \<open>Equality of value objects\<close>

lemma Location_eq_Some_iff:
  "Location_eq a (Some b) \<longleftrightarrow>
     state a \<noteq> None \<and> city a \<noteq> None \<and> street_address a \<noteq> None \<and> zip_code a \<noteq> None \<and>
     state a = state b \<and> city a = city b \<and> street_address a = street_address b \<and>
     zip_code a = zip_code b"
  by (auto simp: Location_eq_def Location_slots_def)

lemma Location_eq_None: "\<not> Location_eq a None"
  by (simp add: Location_eq_def Location_slots_def)

lemma Date_eq_Some_iff:
  "Date_eq a (Some b) \<longleftrightarrow>
     day a \<noteq> None \<and> month a \<noteq> None \<and> year a \<noteq> None \<and>
     day a = day b \<and> month a = month b \<and> year a = year b"
  by (auto simp: Date_eq_def Date_slots_def)

lemma Date_eq_None: "\<not> Date_eq a None"
  by (simp add: Date_eq_def Date_slots_def)

text \<open>
  Claim C6. A location with a null field is equal to no location, itself included:
  \<^verbatim>\<open>L1 == L2\<close> is false whenever one of the four fields of \<open>L1\<close> is \<open>None\<close>. And
  when \<^verbatim>\<open>L1 == L2\<close> holds, each of the four fields is set on both sides to the same
  string (equality of strings is exact, so it is case sensitive).
\<close>

theorem Location_eq_null_field:
  "(state L1 = None \<or> city L1 = None \<or> street_address L1 = None \<or> zip_code L1 = None
      \<longrightarrow> \<not> Location_eq L1 (Some L2) \<and> \<not> Location_eq L1 (Some L1))
   \<and> (Location_eq L1 (Some L2) \<longrightarrow>
        (\<exists>s c a z. state L1 = Some s \<and> state L2 = Some s \<and> city L1 = Some c \<and> city L2 = Some c
           \<and> street_address L1 = Some a \<and> street_address L2 = Some a
           \<and> zip_code L1 = Some z \<and> zip_code L2 = Some z))"
  by (auto simp: Location_eq_Some_iff)

theorem Location_eq_null_field_witness:
  "zip_code loc_nozip = None
   \<and> \<not> Location_eq loc_nozip (Some loc_va) \<and> \<not> Location_eq loc_nozip (Some loc_nozip)
   \<and> Location_eq loc_va (Some loc_va) \<and> zip_code loc_va = Some ''12345''"
  using Location_eq_null_field [of loc_nozip loc_va] Location_eq_null_field [of loc_va loc_va]
  by (simp add: loc_va_def loc_nozip_def Location_eq_def Location_slots_def)

section \<open>Tier tables\<close>

lemma foldl_last_match:
  "foldl (\<lambda>m t. if P t then f t else m) d xs = spec_last_match P f d xs"
proof (induction xs rule: rev_induct)
  case Nil
  show ?case by (simp add: spec_last_match_def)
next
  case (snoc x xs)
  then show ?case by (simp add: spec_last_match_def split: list.splits)
qed

lemma weight_loop_first_match:
  "weight_loop tw ws =
     spec_first_match (\<lambda>w. fle tw (max_weight w)) weight_multiplier (Fin 1) ws"
  by (induction ws) (simp_all add: spec_first_match_def)

lemma psystem_simps:
  "qualities psystem = [\<lparr>max_percent = Fin 50, quality_multiplier = Fin (1 / 2)\<rparr>,
                   \<lparr>max_percent = Fin 100, quality_multiplier = Fin 1\<rparr>]"
  "weights psystem = [\<lparr>max_weight = Fin 10, weight_multiplier = Fin (1 / 2)\<rparr>,
                 \<lparr>max_weight = Fin 999, weight_multiplier = Fin 1\<rparr>]"
  "battery_base_value psystem = [(''li-ion'', Fin 400)]"
  "distance psystem = [\<lparr>min_distance = Fin 0, distance_multiplier = Fin 1\<rparr>,
                  \<lparr>min_distance = Fin 100, distance_multiplier = Fin 2\<rparr>]"
  "bonus psystem = [\<lparr>min_packages = Fin 2, percent = Fin 5\<rparr>]"
  "orders psystem = [(Some 4, order_4), (Some 5, order_5), (Some 7, order_7)]"
  by (simp_all add: psystem_def)

text \<open>
  Claim C4, as the code has it. The quality multiplier is that of the last quality tier,
  in list order, whose \<open>max_percent\<close> is at least the package's quality (0 when there is
  none); the distance multiplier that of the last distance tier whose \<open>min_distance\<close> is
  at most the order's distance (1 when there is none); the bonus percent that of the last
  bonus tier whose \<open>min_packages\<close> is at most the number of packages (0 when there is
  none); the weight multiplier that of the first weight tier whose \<open>max_weight\<close> is at
  least the total weight, and 1 when no tier matches. An empty package list is no
  special case: its total weight is 0 and the same first match decides.
\<close>

theorem tier_match_directions:
  "quality_mult_of self q =
     spec_last_match (\<lambda>t. fle q (max_percent t)) quality_multiplier (Fin 0) (qualities self)
   \<and> distance_mult_of self miles =
     spec_last_match (\<lambda>t. fle (min_distance t) miles) distance_multiplier (Fin 1)
       (distance self)
   \<and> bonus_of self n =
     spec_last_match (\<lambda>t. int_ge_float (int n) (min_packages t)) percent (Fin 0) (bonus self)
   \<and> weight_loop tw (weights self) =
     spec_first_match (\<lambda>t. fle tw (max_weight t)) weight_multiplier (Fin 1) (weights self)"
  unfolding quality_mult_of_def distance_mult_of_def bonus_of_def
  by (simp add: foldl_last_match weight_loop_first_match)

text \<open>
  On the overlapping tiers of \<open>psystem\<close>: quality 40 is below both quality bounds and
  takes the second multiplier, weight 1 is below both weight bounds and takes the first.
\<close>

theorem tier_match_directions_witness:
  "quality_mult_of psystem (Fin 40) = Fin 1 \<and> distance_mult_of psystem (Fin 500) = Fin 2
   \<and> bonus_of psystem 3 = Fin 5 \<and> weight_loop (Fin 1) (weights psystem) = Fin (1 / 2)"
  using tier_match_directions [of psystem "Fin 40" "Fin 500" 3 "Fin 1"]
  by (simp add: psystem_simps spec_last_match_def spec_first_match_def)

text \<open>
  Claim C4 as stated gives the weight multiplier the default 1 when the package list is
  empty. Order 5 of \<open>psystem\<close> has no package; its total weight 0 matches the first
  weight tier, the multiplier is \<open>1/2\<close>, and the shipping deduction is 500, not 1000.
\<close>

theorem weight_default_counterexample:
  "map_of (orders psystem) (Some 5) = Some order_5 \<and> packages order_5 = []
   \<and> package_loop psystem (packages order_5) tally0 = Inr tally0
   \<and> weight_loop (total_weight tally0) (weights psystem) = Fin (1 / 2)
   \<and> weight_loop (total_weight tally0) (weights psystem) \<noteq> Fin 1
   \<and> shipping_deduction psystem order_5 tally0 = Fin 500"
  by (simp add: psystem_simps order_5_def Order_init_def tally0_def shipping_deduction_def
        base_shipping_of_def distance_mult_of_def rnd_numeral)

section \<open>Quoting\<close>

lemma package_loop_length:
  "package_loop self ps t = Inr t' \<Longrightarrow>
     length (battery_types t') = length (battery_types t) + length ps"
  by (induction ps arbitrary: t) (auto simp: Let_def split: option.splits)

lemma package_loop_KeyError:
  "\<exists>p \<in> set ps. map_of (battery_base_value self) (battery_type p) = None \<Longrightarrow>
     \<exists>p \<in> set ps. map_of (battery_base_value self) (battery_type p) = None \<and>
        package_loop self ps t = Inl (KeyError (battery_type p))"
  by (induction ps arbitrary: t) (auto simp: Let_def split: option.splits)

lemma quote_computed:
  assumes "map_of (orders self) oid = Some order" "total_cost order = None"
    "package_loop self (packages order) tally0 = Inr t"
  shows "quote self oid =
     (Inr (Frame (build_df self order t)),
      self\<lparr>orders := AList.map_entry oid
         (\<lambda>ord. ord\<lparr>total_cost := Some (floored_total self order t),
                     df := Some (build_df self order t)\<rparr>) (orders self)\<rparr>)"
  using assms by (simp add: quote_def Let_def)

lemma quote_Frame_cases:
  assumes "quote self oid = (Inr (Frame fr), self')"
  obtains order t where "map_of (orders self) oid = Some order" "total_cost order = None"
    "package_loop self (packages order) tally0 = Inr t" "fr = build_df self order t"
    "self' = self\<lparr>orders := AList.map_entry oid
         (\<lambda>ord. ord\<lparr>total_cost := Some (floored_total self order t),
                     df := Some (build_df self order t)\<rparr>) (orders self)\<rparr>"
  using assms by (auto simp: quote_def Let_def split: option.splits sum.splits)

lemma map_of_build_df_Total:
  "map_of (build_df self order t) ''Total'' =
     Some (replicate (length (battery_types t)) (Text []) @
       [Number (floored_total self order t)])"
  by (simp add: build_df_def Let_def)

lemmas pricing_defs =
  tally0_def floored_total_def unfloored_total_def subtotal_def shipping_deduction_def
  base_shipping_of_def distance_mult_of_def quality_mult_of_def bonus_of_def build_df_def
  py_max2_def round_half_even_def rnd_numeral rnd_neg_numeral Let_def

subsection \<open>The quotes of the example system\<close>

lemma package_loop_order_4:
  "package_loop psystem (packages order_4) tally0 =
     Inr \<lparr>total_to_pay = Fin 400, total_weight = Fin 1, battery_types = [''li-ion''],
          battery_weights = [Fin 1], battery_values = [Fin 400],
          battery_qualities = [Fin 75]\<rparr>"
  by (simp add: psystem_simps order_4_def Order_init_def li_ion_pkg_def tally0_def
        quality_mult_of_def rnd_numeral Let_def)

lemma quote_psystem_4: "quote psystem (Some 4) = (Inr (Frame frame_4), psystem_q4)"
  unfolding quote_def
  by (simp add: psystem_simps package_loop_order_4)
     (simp add: psystem_def psystem_q4_def frame_4_def order_4_def Order_init_def li_ion_pkg_def
        pricing_defs)

lemma quote_psystem_5: "quote psystem (Some 5) = (Inr (Frame frame_5), psystem_q5)"
  unfolding quote_def
  by (simp add: psystem_def psystem_q5_def frame_5_def order_5_def Order_init_def
        pricing_defs)

lemma quote_psystem_7: "quote psystem (Some 7) = (Inl (KeyError ''NiCd''), psystem)"
  unfolding quote_def
  by (simp add: psystem_simps order_7_def Order_init_def li_ion_pkg_def nicd_pkg_def
        pricing_defs)

lemma quote_psystem_q4_again:
  "quote psystem_q4 (Some 4) = (Inr (CachedCost (Fin 400)), psystem_q4)"
  unfolding quote_def
  by (simp add: psystem_q4_def)

subsection \<open>An overflow of the shipping cost\<close>

lemma psystem_far_simps:
  "qualities psystem_far = qualities psystem"
  "weights psystem_far = weights psystem"
  "battery_base_value psystem_far = battery_base_value psystem"
  "distance psystem_far = distance psystem"
  "bonus psystem_far = bonus psystem"
  "orders psystem_far = [(Some 8, order_8), (Some 9, order_9)]"
  by (simp_all add: psystem_far_def)

lemma base_shipping_far:
  "base_shipping_of psystem_far order_8 = PInf" "base_shipping_of psystem_far order_9 = PInf"
  by (simp_all add: base_shipping_of_def distance_mult_of_def psystem_far_simps psystem_simps
        order_8_def order_9_def Order_init_def rnd_overflow)

lemma package_loop_order_8:
  "package_loop psystem_far (packages order_8) tally0 = Inr tally_8"
  by (simp add: psystem_far_simps psystem_simps order_8_def Order_init_def li_ion_pkg_def
        tally0_def tally_8_def quality_mult_of_def rnd_numeral Let_def)

subsection \<open>The price floor\<close>

text \<open>
  Rounding to two decimal places gives the float nearest to a multiple of \<open>1/100\<close> that
  is within \<open>1/200\<close> of the argument, and keeps a value of at least 100 at least 100.
\<close>

lemma round2_nearest:
  "\<exists>n. round2 (Fin x) = rnd (of_int n / 100) \<and> \<bar>of_int n / 100 - x\<bar> \<le> 1 / 200"
proof -
  let ?n = "round_half_even (x * 100)"
  have "\<bar>of_int ?n - x * 100\<bar> \<le> 1 / 2" by (rule round_half_even_nearest)
  then have "\<bar>(of_int ?n - x * 100) / 100\<bar> \<le> 1 / 2 / 100" by (simp add: abs_divide)
  then have "\<bar>of_int ?n / 100 - x\<bar> \<le> 1 / 200" by (simp add: diff_divide_distrib)
  then show ?thesis by auto
qed

lemma round2_100 [simp]: "round2 (Fin 100) = Fin 100"
  by (simp add: round_half_even_def rnd_numeral)

lemma round2_ge_100:
  assumes "100 \<le> x"
  shows "fle (Fin 100) (round2 (Fin x))"
proof -
  have "(10000::real) \<le> x * 100" using assms by simp
  then have "(10000::int) \<le> \<lfloor>x * 100\<rfloor>" by (simp add: le_floor_iff)
  then have "(10000::int) \<le> round_half_even (x * 100)"
    using round_half_even_ge_floor [of "x * 100"] by linarith
  then have "(10000::real) \<le> of_int (round_half_even (x * 100))" by linarith
  then have "100 \<le> of_int (round_half_even (x * 100)) / (100::real)" by simp
  from rnd_ge_100 [OF this] show ?thesis by auto
qed

text \<open>
  The total that \<^verbatim>\<open>quote\<close> stores and writes into the last cell of the row \<^verbatim>\<open>Total\<close>
  is \<^verbatim>\<open>round(max([total_to_pay, 100.00]), 2)\<close>. It is at least 100 unless the total
  before the floor is NaN; then it is NaN.
\<close>

lemma floored_total_floor:
  assumes "unfloored_total self order t \<noteq> NaN"
  shows "fle (Fin 100) (floored_total self order t)"
proof (cases "unfloored_total self order t")
  case (Fin x)
  show ?thesis
  proof (cases "x < 100")
    case True
    with Fin show ?thesis by (simp add: floored_total_def py_max2_def del: round2.simps)
  next
    case False
    then have "fle (Fin 100) (round2 (Fin x))" by (intro round2_ge_100) simp
    with Fin False show ?thesis by (simp add: floored_total_def py_max2_def)
  qed
next
  case PInf
  then show ?thesis by (simp add: floored_total_def py_max2_def)
next
  case NInf
  then show ?thesis by (simp add: floored_total_def py_max2_def del: round2.simps)
next
  case NaN
  with assms show ?thesis by simp
qed

lemma floored_total_nan:
  "unfloored_total self order t = NaN \<Longrightarrow> floored_total self order t = NaN"
  by (simp add: floored_total_def py_max2_def)

lemma quote_price_floor_unless_nan:
  assumes "quote self oid = (Inr (Frame fr), self')"
  shows "\<exists>order t total.
     map_of (orders self) oid = Some order
     \<and> package_loop self (packages order) tally0 = Inr t
     \<and> total = round2 (py_max2 (unfloored_total self order t) (Fin 100))
     \<and> (unfloored_total self order t \<noteq> NaN \<longrightarrow> fle (Fin 100) total)
     \<and> map_option total_cost (map_of (orders self') oid) = Some (Some total)
     \<and> map_of fr ''Total'' =
         Some (replicate (length (packages order)) (Text []) @ [Number total])"
proof -
  from assms obtain order t where
    o: "map_of (orders self) oid = Some order" and
    t: "package_loop self (packages order) tally0 = Inr t" and
    fr: "fr = build_df self order t" and
    s: "self' = self\<lparr>orders := AList.map_entry oid
         (\<lambda>ord. ord\<lparr>total_cost := Some (floored_total self order t),
                     df := Some (build_df self order t)\<rparr>) (orders self)\<rparr>"
    by (rule quote_Frame_cases)
  let ?total = "round2 (py_max2 (unfloored_total self order t) (Fin 100))"
  have len: "length (battery_types t) = length (packages order)"
    using package_loop_length [OF t] by (simp add: tally0_def)
  have ge: "unfloored_total self order t \<noteq> NaN \<longrightarrow> fle (Fin 100) ?total"
    using floored_total_floor [of self order t] by (simp add: floored_total_def)
  have stored: "map_option total_cost (map_of (orders self') oid) = Some (Some ?total)"
    by (simp add: s map_of_map_entry o floored_total_def)
  have row: "map_of fr ''Total'' =
      Some (replicate (length (packages order)) (Text []) @ [Number ?total])"
    by (simp add: fr map_of_build_df_Total len floored_total_def)
  from o t ge stored row show ?thesis by blast
qed

text \<open>
  Claim C3 at order 8 of \<open>psystem_far\<close>. The distance \<open>2 ^ 1023\<close> times the distance
  multiplier 2 overflows to infinity, so the subtotal is minus infinity; with the bonus
  0, \<^verbatim>\<open>total_to_pay * (bonus / 100.00)\<close> is minus infinity times zero, which is NaN, and
  so is the total before the floor. \<^verbatim>\<open>max([nan, 100.0])\<close> is NaN and rounds to NaN: the
  total that \<^verbatim>\<open>quote\<close> stores is NaN, which is not at least 100.
\<close>

theorem price_floor_nan:
  "map_of (orders psystem_far) (Some 8) = Some order_8
   \<and> package_loop psystem_far (packages order_8) tally0 = Inr tally_8
   \<and> base_shipping_of psystem_far order_8 = PInf
   \<and> subtotal psystem_far order_8 tally_8 = NInf
   \<and> unfloored_total psystem_far order_8 tally_8 = NaN
   \<and> floored_total psystem_far order_8 tally_8 = NaN
   \<and> map_option total_cost (map_of (orders (snd (quote psystem_far (Some 8)))) (Some 8)) =
       Some (Some NaN)
   \<and> \<not> fle (Fin 100) NaN"
proof -
  have o: "map_of (orders psystem_far) (Some 8) = Some order_8"
    by (simp add: psystem_far_simps)
  have fresh: "total_cost order_8 = None"
    by (simp add: order_8_def Order_init_def)
  have ded: "shipping_deduction psystem_far order_8 tally_8 = PInf"
    by (simp add: shipping_deduction_def base_shipping_far tally_8_def psystem_far_simps
          psystem_simps)
  have sub: "subtotal psystem_far order_8 tally_8 = NInf"
    by (simp add: subtotal_def ded) (simp add: tally_8_def)
  have bon: "bonus_of psystem_far (length (packages order_8)) = Fin 0"
    by (simp add: bonus_of_def psystem_far_simps psystem_simps order_8_def Order_init_def)
  have pre: "unfloored_total psystem_far order_8 tally_8 = NaN"
    by (simp add: unfloored_total_def sub bon)
  have tot: "floored_total psystem_far order_8 tally_8 = NaN"
    by (simp add: floored_total_def pre py_max2_def)
  have "map_option total_cost (map_of (orders (snd (quote psystem_far (Some 8)))) (Some 8)) =
      Some (Some NaN)"
    by (simp add: quote_computed [OF o fresh package_loop_order_8] map_of_map_entry o tot)
  with o package_loop_order_8 base_shipping_far(1) sub pre tot show ?thesis by simp
qed

subsection \<open>An order without packages\<close>

text \<open>
  A stored order without packages that has no cached quote gets a quote. When its
  distance, the distance and weight multipliers and the bonus percents are at least 0,
  the bonus percents are finite and the shipping deduction is finite (the shipping
  arithmetic does not overflow), the subtotal is the negative of the shipping deduction
  and the total is exactly 100.
\<close>

lemma fmul_Fin_cases:
  assumes "fmul a b = Fin d"
  obtains x y where "a = Fin x" "b = Fin y" "rnd (x * y) = Fin d"
  using assms by (cases a; cases b) (auto split: if_splits)

lemma fle_0_cases: "fle (Fin 0) a \<longleftrightarrow> a = PInf \<or> (\<exists>x\<ge>0. a = Fin x)"
  by (cases a) auto

lemma foldl_pick_pred:
  "Q d \<Longrightarrow> \<forall>x \<in> set xs. Q (f x) \<Longrightarrow> Q (foldl (\<lambda>m t. if P t then f t else m) d xs)"
  by (induction xs arbitrary: d) auto

lemma weight_loop_nonneg:
  "\<forall>w \<in> set ws. fle (Fin 0) (weight_multiplier w) \<Longrightarrow> fle (Fin 0) (weight_loop tw ws)"
  by (induction ws) auto

lemma quote_empty_order_finite:
  assumes stored: "map_of (orders self) oid = Some order"
    and empty: "packages order = []"
    and fresh: "total_cost order = None"
    and dist: "fle (Fin 0) (distance_to_ship order)"
    and dm: "\<forall>d \<in> set (distance self). fle (Fin 0) (distance_multiplier d)"
    and wm: "\<forall>w \<in> set (weights self). fle (Fin 0) (weight_multiplier w)"
    and bp: "\<forall>b \<in> set (bonus self). \<exists>x. percent b = Fin x \<and> 0 \<le> x \<and> x < 2 ^ 1024"
    and fin: "shipping_deduction self order tally0 = Fin d"
  shows "0 \<le> d \<and> subtotal self order tally0 = Fin (- d)
     \<and> floored_total self order tally0 = Fin 100
     \<and> (\<exists>fr self'. quote self oid = (Inr (Frame fr), self')
          \<and> map_option total_cost (map_of (orders self') oid) = Some (Some (Fin 100))
          \<and> map_of fr ''Total'' = Some [Number (Fin 100)])"
proof -
  have loop: "package_loop self (packages order) tally0 = Inr tally0"
    by (simp add: empty)
  have zero: "total_to_pay tally0 = Fin 0" "total_weight tally0 = Fin 0"
    "battery_types tally0 = []"
    by (simp_all add: tally0_def)
  from fin obtain x y where base: "base_shipping_of self order = Fin x"
    and wl: "weight_loop (total_weight tally0) (weights self) = Fin y"
    and d: "rnd (x * y) = Fin d"
    unfolding shipping_deduction_def by (rule fmul_Fin_cases)
  from base obtain p r where p: "distance_to_ship order = Fin p"
    and r: "distance_mult_of self (distance_to_ship order) = Fin r"
    and x: "rnd (p * r) = Fin x"
    unfolding base_shipping_of_def by (rule fmul_Fin_cases)
  have "0 \<le> p" using dist p by simp
  moreover have "fle (Fin 0) (distance_mult_of self (distance_to_ship order))"
    unfolding distance_mult_of_def
    by (rule foldl_pick_pred [where Q = "fle (Fin 0)"]) (use dm in simp_all)
  then have "0 \<le> r" using r by simp
  ultimately have "0 \<le> p * r" by simp
  from rnd_nonneg [OF this] x have x0: "0 \<le> x" by auto
  have "fle (Fin 0) (weight_loop (total_weight tally0) (weights self))"
    using wm by (rule weight_loop_nonneg)
  then have "0 \<le> y" using wl by simp
  with x0 have "0 \<le> x * y" by simp
  from rnd_nonneg [OF this] d have d0: "0 \<le> d" by auto
  have sub: "subtotal self order tally0 = Fin (- d)"
    using rnd_idem(2) [OF d] by (simp add: subtotal_def zero fin)
  have "\<exists>b. bonus_of self (length (packages order)) = Fin b \<and> 0 \<le> b \<and> b < 2 ^ 1024"
    unfolding bonus_of_def
    by (rule foldl_pick_pred [where Q = "\<lambda>v. \<exists>b. v = Fin b \<and> 0 \<le> b \<and> b < 2 ^ 1024"])
       (use bp in simp_all)
  then obtain b where b: "bonus_of self (length (packages order)) = Fin b"
    "0 \<le> b" "b < 2 ^ 1024" by blast
  have "b / 100 < 2 ^ 1024 / 100" using b(3) by (simp add: divide_strict_right_mono)
  also have "\<dots> < (2::real) ^ 1023" by simp
  finally have "\<bar>b / 100\<bar> < 2 ^ 1023" using b(2) by simp
  from rnd_finite [OF this] obtain c where c: "rnd (b / 100) = Fin c" by blast
  have "0 \<le> b / 100" using b(2) by simp
  from rnd_nonneg [OF this] c have c0: "0 \<le> c" by auto
  have "- d * c \<le> 0" using d0 c0 by (simp add: mult_nonneg_nonneg)
  from rnd_nonpos [OF this]
  have prod: "rnd (- d * c) = NInf \<or> (\<exists>z\<le>0. rnd (- d * c) = Fin z)" .
  have pre: "unfloored_total self order tally0 = NInf
      \<or> (\<exists>w\<le>0. unfloored_total self order tally0 = Fin w)"
  proof -
    have u: "unfloored_total self order tally0 = fadd (Fin (- d)) (rnd (- d * c))"
      by (simp add: unfloored_total_def sub b(1) c)
    from prod show ?thesis
    proof
      assume "rnd (- d * c) = NInf"
      then show ?thesis unfolding u by simp
    next
      assume "\<exists>z\<le>0. rnd (- d * c) = Fin z"
      then obtain z where z: "z \<le> 0" "rnd (- d * c) = Fin z" by blast
      have "- d + z \<le> 0" using d0 z(1) by simp
      from rnd_nonpos [OF this] z(2) show ?thesis unfolding u by simp
    qed
  qed
  then have "py_max2 (unfloored_total self order tally0) (Fin 100) = Fin 100"
    by (auto simp: py_max2_def)
  then have total: "floored_total self order tally0 = Fin 100"
    by (simp add: floored_total_def del: round2.simps)
  have q: "quote self oid =
     (Inr (Frame (build_df self order tally0)),
      self\<lparr>orders := AList.map_entry oid
         (\<lambda>ord. ord\<lparr>total_cost := Some (floored_total self order tally0),
                     df := Some (build_df self order tally0)\<rparr>) (orders self)\<rparr>)"
    by (rule quote_computed [OF stored fresh loop])
  have st: "map_option total_cost (map_of (orders (self\<lparr>orders := AList.map_entry oid
         (\<lambda>ord. ord\<lparr>total_cost := Some (floored_total self order tally0),
                     df := Some (build_df self order tally0)\<rparr>) (orders self)\<rparr>)) oid) =
      Some (Some (Fin 100))"
    by (simp add: map_of_map_entry stored total)
  have row: "map_of (build_df self order tally0) ''Total'' = Some [Number (Fin 100)]"
    by (simp add: map_of_build_df_Total zero total)
  from q st row have "\<exists>fr self'. quote self oid = (Inr (Frame fr), self')
          \<and> map_option total_cost (map_of (orders self') oid) = Some (Some (Fin 100))
          \<and> map_of fr ''Total'' = Some [Number (Fin 100)]"
    by blast
  with d0 sub total show ?thesis by blast
qed

text \<open>
  Claim C9 at order 9 of \<open>psystem_far\<close>, which has no package. Its distance, every
  multiplier and every bonus percent are at least 0. The shipping deduction overflows to
  infinity, the subtotal is minus infinity, and the total that \<^verbatim>\<open>quote\<close> stores is NaN,
  not 100.
\<close>

theorem empty_order_nan:
  "map_of (orders psystem_far) (Some 9) = Some order_9 \<and> packages order_9 = []
   \<and> total_cost order_9 = None
   \<and> fle (Fin 0) (distance_to_ship order_9)
   \<and> list_all (\<lambda>d. fle (Fin 0) (distance_multiplier d)) (distance psystem_far)
   \<and> list_all (\<lambda>w. fle (Fin 0) (weight_multiplier w)) (weights psystem_far)
   \<and> list_all (\<lambda>q. fle (Fin 0) (quality_multiplier q)) (qualities psystem_far)
   \<and> list_all (\<lambda>b. fle (Fin 0) (percent b)) (bonus psystem_far)
   \<and> (\<exists>fr. fst (quote psystem_far (Some 9)) = Inr (Frame fr))
   \<and> shipping_deduction psystem_far order_9 tally0 = PInf
   \<and> subtotal psystem_far order_9 tally0 = NInf
   \<and> map_option total_cost (map_of (orders (snd (quote psystem_far (Some 9)))) (Some 9)) =
       Some (Some NaN)
   \<and> NaN \<noteq> Fin 100"
proof -
  have o: "map_of (orders psystem_far) (Some 9) = Some order_9"
    by (simp add: psystem_far_simps)
  have fresh: "total_cost order_9 = None" and empty: "packages order_9 = []"
    by (simp_all add: order_9_def Order_init_def)
  have loop: "package_loop psystem_far (packages order_9) tally0 = Inr tally0"
    by (simp add: empty)
  have ded: "shipping_deduction psystem_far order_9 tally0 = PInf"
    by (simp add: shipping_deduction_def base_shipping_far tally0_def psystem_far_simps
          psystem_simps)
  have sub: "subtotal psystem_far order_9 tally0 = NInf"
    by (simp add: subtotal_def ded) (simp add: tally0_def)
  have bon: "bonus_of psystem_far (length (packages order_9)) = Fin 0"
    by (simp add: bonus_of_def psystem_far_simps psystem_simps empty)
  have tot: "floored_total psystem_far order_9 tally0 = NaN"
    by (simp add: floored_total_def unfloored_total_def sub bon py_max2_def)
  have stored:
    "map_option total_cost (map_of (orders (snd (quote psystem_far (Some 9)))) (Some 9)) =
      Some (Some NaN)"
    by (simp add: quote_computed [OF o fresh loop] map_of_map_entry o tot)
  have nonneg: "fle (Fin 0) (distance_to_ship order_9)"
    "list_all (\<lambda>d. fle (Fin 0) (distance_multiplier d)) (distance psystem_far)"
    "list_all (\<lambda>w. fle (Fin 0) (weight_multiplier w)) (weights psystem_far)"
    "list_all (\<lambda>q. fle (Fin 0) (quality_multiplier q)) (qualities psystem_far)"
    "list_all (\<lambda>b. fle (Fin 0) (percent b)) (bonus psystem_far)"
    by (simp_all add: psystem_far_simps psystem_simps order_9_def Order_init_def)
  have "\<exists>fr. fst (quote psystem_far (Some 9)) = Inr (Frame fr)"
    by (simp add: quote_computed [OF o fresh loop])
  with o empty fresh nonneg ded sub stored show ?thesis by simp
qed

subsection \<open>A battery type without a base value\<close>

text \<open>
  Claim C2, as the code has it. For a stored order that has no cached quote and holds a
  package whose battery type is not a key of the base-value table, \<^verbatim>\<open>quote\<close> raises
  \<^verbatim>\<open>KeyError\<close> for the type of such a package; nothing is returned, and the system
  (this order, every other order and the rate tables) is as it was before the call.
\<close>

theorem quote_missing_battery_type:
  assumes "map_of (orders self) oid = Some order" and "total_cost order = None"
    and "\<exists>p \<in> set (packages order). map_of (battery_base_value self) (battery_type p) = None"
  shows "\<exists>p \<in> set (packages order).
     map_of (battery_base_value self) (battery_type p) = None
     \<and> quote self oid = (Inl (KeyError (battery_type p)), self)"
proof -
  from package_loop_KeyError [OF assms(3), of tally0] obtain p where
    p: "p \<in> set (packages order)" "map_of (battery_base_value self) (battery_type p) = None"
      "package_loop self (packages order) tally0 = Inl (KeyError (battery_type p))"
    by blast
  have "quote self oid = (Inl (KeyError (battery_type p)), self)"
    using assms(1,2) p(3) by (simp add: quote_def)
  with p(1,2) show ?thesis by blast
qed

theorem quote_missing_battery_type_witness:
  "map_of (orders psystem) (Some 7) = Some order_7 \<and> total_cost order_7 = None
   \<and> nicd_pkg \<in> set (packages order_7)
   \<and> map_of (battery_base_value psystem) (battery_type nicd_pkg) = None
   \<and> quote psystem (Some 7) = (Inl (KeyError (battery_type nicd_pkg)), psystem)"
  using quote_missing_battery_type [of psystem "Some 7" order_7] quote_psystem_7
  by (simp add: psystem_simps order_7_def Order_init_def nicd_pkg_def)

text \<open>
  Claim C2 as stated has \<^verbatim>\<open>quote\<close> return an absent result for such an order. Order 7
  of \<open>psystem\<close> holds a package of type \<^verbatim>\<open>NiCd\<close>, which has no base value: the call
  does not return \<^verbatim>\<open>None\<close>, it raises \<^verbatim>\<open>KeyError\<close>.
\<close>

theorem quote_missing_type_counterexample:
  "map_of (orders psystem) (Some 7) = Some order_7
   \<and> nicd_pkg \<in> set (packages order_7)
   \<and> map_of (battery_base_value psystem) (battery_type nicd_pkg) = None
   \<and> fst (quote psystem (Some 7)) = Inl (KeyError ''NiCd'')
   \<and> fst (quote psystem (Some 7)) \<noteq> Inr NoQuote"
  by (simp add: quote_psystem_7 psystem_simps order_7_def Order_init_def nicd_pkg_def)

subsection \<open>What quoting changes\<close>

lemma quote_state_cases:
  "snd (quote self oid) = self
   \<or> (\<exists>c fr. snd (quote self oid) =
        self\<lparr>orders := AList.map_entry oid (\<lambda>ord. ord\<lparr>total_cost := Some c, df := Some fr\<rparr>)
          (orders self)\<rparr>)"
  by (auto simp: quote_def Let_def split: option.splits sum.splits)

lemma map_fst_map_entry: "map fst (AList.map_entry k f xs) = map fst xs"
  by (induction xs) auto

text \<open>
  Claim C10. A call of \<^verbatim>\<open>quote\<close>, whatever it returns or raises, keeps the keys of the
  order dictionary; every stored order keeps its order id, location, date, packages,
  distance and accepted flag, so that at most its cached total and data frame change;
  and every order stored under another id is unchanged.
\<close>

theorem quote_frame:
  assumes "quote self oid = (r, self')"
  shows "map fst (orders self') = map fst (orders self)
   \<and> (\<forall>k ord. map_of (orders self) k = Some ord \<longrightarrow>
        (\<exists>ord'. map_of (orders self') k = Some ord'
           \<and> order_id ord' = order_id ord \<and> location ord' = location ord
           \<and> date ord' = date ord \<and> packages ord' = packages ord
           \<and> distance_to_ship ord' = distance_to_ship ord \<and> accepted ord' = accepted ord
           \<and> (k \<noteq> oid \<longrightarrow> ord' = ord)))"
proof -
  from assms have s: "self' = snd (quote self oid)" by simp
  from quote_state_cases [of self oid] show ?thesis
  proof
    assume "snd (quote self oid) = self"
    with s show ?thesis by simp
  next
    assume "\<exists>c fr. snd (quote self oid) =
        self\<lparr>orders := AList.map_entry oid (\<lambda>ord. ord\<lparr>total_cost := Some c, df := Some fr\<rparr>)
          (orders self)\<rparr>"
    then obtain c fr where "self' =
        self\<lparr>orders := AList.map_entry oid (\<lambda>ord. ord\<lparr>total_cost := Some c, df := Some fr\<rparr>)
          (orders self)\<rparr>"
      using s by auto
    then show ?thesis by (simp add: map_fst_map_entry map_of_map_entry)
  qed
qed

theorem quote_frame_witness:
  "quote psystem (Some 4) = (Inr (Frame frame_4), psystem_q4)
   \<and> map fst (orders psystem_q4) = map fst (orders psystem)
   \<and> map_of (orders psystem_q4) (Some 5) = map_of (orders psystem) (Some 5)
   \<and> map_of (orders psystem_q4) (Some 7) = map_of (orders psystem) (Some 7)
   \<and> map_of (orders psystem) (Some 4) = Some order_4
   \<and> map_of (orders psystem_q4) (Some 4) = Some (order_4\<lparr>total_cost := Some (Fin 400), df := Some frame_4\<rparr>)"
  using quote_frame [OF quote_psystem_4] quote_psystem_4
  by (simp add: psystem_simps psystem_q4_def)

subsection \<open>The keys of the order dictionary\<close>

text \<open>
  The operations keep the keys of the dictionary distinct; \<^verbatim>\<open>add_order\<close> leaves an
  order that is already stored as it is.
\<close>

lemma add_order_distinct:
  "distinct (map fst (orders self)) \<Longrightarrow> distinct (map fst (orders (add_order self order)))"
  by (auto simp: add_order_def map_of_eq_None_iff)

lemma quote_reply_distinct:
  "distinct (map fst (orders self)) \<Longrightarrow>
     distinct (map fst (orders (quote_reply self oid answer)))"
  by (simp add: quote_reply_def map_fst_map_entry)

lemma quote_distinct:
  "distinct (map fst (orders self)) \<Longrightarrow> distinct (map fst (orders (snd (quote self oid))))"
  using quote_state_cases [of self oid] by (auto simp: map_fst_map_entry)

lemma add_order_existing:
  "map_of (orders self) (order_id order) = Some ord \<Longrightarrow> add_order self order = self"
  by (simp add: add_order_def)

subsection \<open>Quoting twice\<close>

text \<open>
  After a call that computed a quote, a second call returns the cached total, whatever
  the rate tables have become, and changes nothing; the frame stays cached on the order.
\<close>

lemma quote_again:
  assumes "quote self oid = (Inr (Frame fr), self')"
  shows "\<exists>c. map_option total_cost (map_of (orders self') oid) = Some (Some c)
     \<and> map_option df (map_of (orders self') oid) = Some (Some fr)
     \<and> quote (self'\<lparr>qualities := qs, weights := ws, battery_base_value := bv, distance := ds,
              bonus := bs\<rparr>) oid =
         (Inr (CachedCost c),
          self'\<lparr>qualities := qs, weights := ws, battery_base_value := bv, distance := ds,
              bonus := bs\<rparr>)"
proof -
  from assms obtain order t where
    o: "map_of (orders self) oid = Some order" and
    fr: "fr = build_df self order t" and
    s: "self' = self\<lparr>orders := AList.map_entry oid
         (\<lambda>ord. ord\<lparr>total_cost := Some (floored_total self order t),
                     df := Some (build_df self order t)\<rparr>) (orders self)\<rparr>"
    by (rule quote_Frame_cases)
  show ?thesis
    by (simp add: s fr quote_def map_of_map_entry o)
qed

text \<open>
  Claim C1 at order 4 of \<open>psystem\<close>. The first call of \<^verbatim>\<open>quote\<close> returns the data
  frame and caches the total 400 and the frame on the order. The second call returns the
  cached total alone, the number 400, also after the base-value table has changed: it
  recomputes nothing, and its return value is not the return value of the first call.
\<close>

theorem quote_twice_differs:
  "quote psystem (Some 4) = (Inr (Frame frame_4), psystem_q4)
   \<and> quote psystem_q4 (Some 4) = (Inr (CachedCost (Fin 400)), psystem_q4)
   \<and> quote (psystem_q4\<lparr>battery_base_value := [(''li-ion'', Fin 1000)]\<rparr>) (Some 4) =
       (Inr (CachedCost (Fin 400)),
        psystem_q4\<lparr>battery_base_value := [(''li-ion'', Fin 1000)]\<rparr>)
   \<and> fst (quote psystem_q4 (Some 4)) \<noteq> fst (quote psystem (Some 4))"
  by (simp add: quote_psystem_4 quote_psystem_q4_again) (simp add: quote_def psystem_q4_def)

section \<open>Accepting and rejecting a quote\<close>

lemma quote_reply_stored:
  "map_of (orders self) oid = Some ord \<Longrightarrow>
     map_of (orders (quote_reply self oid answer)) oid = Some (ord\<lparr>accepted := answer\<rparr>)"
  by (simp add: quote_reply_def map_of_map_entry)

lemma handle_not_bool:
  "\<not> isinstance_bool answer \<Longrightarrow>
     handle_quote_request_accept self oid answer =
       ((AnswerNotTrueFalse, 400), quote_reply self oid False)"
  by (simp add: handle_quote_request_accept_def Let_def)

lemma handle_bool:
  "handle_quote_request_accept self oid (JBool b) = ((OrderSetTo oid b, 200), quote_reply self oid b)"
  by (simp add: handle_quote_request_accept_def Let_def)

text \<open>
  Claim C5, as the code has it. For a stored order, an acceptance value that is not a
  boolean is answered with the error message and status 400 and is stored as a
  rejection: the accepted flag of the order becomes false. A boolean is answered with
  status 200 and stored as given. Accepting and then rejecting leaves the flag false.
\<close>

theorem acceptance_stored:
  assumes "map_of (orders self) oid = Some ord"
  shows "(\<not> isinstance_bool answer \<longrightarrow>
            (\<exists>self'. handle_quote_request_accept self oid answer = ((AnswerNotTrueFalse, 400), self')
               \<and> map_of (orders self') oid = Some (ord\<lparr>accepted := False\<rparr>)))
     \<and> (\<exists>self'. handle_quote_request_accept self oid (JBool b) = ((OrderSetTo oid b, 200), self')
               \<and> map_of (orders self') oid = Some (ord\<lparr>accepted := b\<rparr>))
     \<and> map_option accepted
          (map_of (orders (quote_reply (quote_reply self oid True) oid False)) oid) = Some False"
  using assms by (simp add: handle_not_bool handle_bool quote_reply_stored)

theorem acceptance_stored_witness:
  "map_of (orders psystem_accepted) (Some 4) = Some (order_4\<lparr>accepted := True\<rparr>)
   \<and> \<not> isinstance_bool (JString ''sdfasdf'')
   \<and> handle_quote_request_accept psystem_accepted (Some 4) (JString ''sdfasdf'') =
        ((AnswerNotTrueFalse, 400), psystem)
   \<and> handle_quote_request_accept psystem (Some 4) (JBool True) =
        ((OrderSetTo (Some 4) True, 200), psystem_accepted)
   \<and> map_option accepted
        (map_of (orders (quote_reply (quote_reply psystem (Some 4) True) (Some 4) False)) (Some 4)) =
        Some False"
  using acceptance_stored [of psystem_accepted "Some 4" "order_4\<lparr>accepted := True\<rparr>" "JString ''sdfasdf''" True]
    acceptance_stored [of psystem "Some 4" order_4 "JString ''sdfasdf''" True]
  by (simp add: handle_quote_request_accept_def quote_reply_def psystem_accepted_def psystem_def
        order_4_def Order_init_def Let_def)

text \<open>
  Claim C5 as stated has a value that is not a boolean leave the stored flag unchanged.
  Order 4 of \<open>psystem_accepted\<close> is accepted; the request with the string
  \<^verbatim>\<open>sdfasdf\<close> is answered with status 400 and sets the flag to false.
\<close>

theorem acceptance_not_bool_counterexample:
  "map_option accepted (map_of (orders psystem_accepted) (Some 4)) = Some True
   \<and> \<not> isinstance_bool (JString ''sdfasdf'')
   \<and> fst (handle_quote_request_accept psystem_accepted (Some 4) (JString ''sdfasdf'')) =
        (AnswerNotTrueFalse, 400)
   \<and> map_option accepted
        (map_of (orders (snd (handle_quote_request_accept psystem_accepted (Some 4) (JString ''sdfasdf''))))
           (Some 4)) = Some False"
  by (simp add: handle_quote_request_accept_def quote_reply_def psystem_accepted_def
        order_4_def Order_init_def Let_def)

section \<open>Finding orders\<close>

lemmas search_defs =
  find_orders_def find_inner_data_def simple_compare_def Location_eq_def Location_slots_def
  Date_eq_def Date_slots_def Let_def

lemmas order_defs =
  order_4_def order_5_def order_7_def Order_init_def loc_va_def loc_nozip_def
  date_sep20_def date_sep21_def

text \<open>
  Claim C8. A search by order id returns, without failing, a list of one element: what
  the order dictionary holds under that id, which is the stored order when there is one
  and \<open>None\<close> otherwise. So the list has at most one element and at most one order in
  it, the stored one; on a system without orders the element is \<open>None\<close>.
\<close>

theorem find_orders_by_id:
  "find_orders as_completed self (Some k) loc dt = Some [map_of (orders self) (Some k)]
   \<and> (\<exists>res. find_orders as_completed self (Some k) loc dt = Some res \<and> length res \<le> 1
         \<and> List.map_filter id res = (case map_of (orders self) (Some k) of None \<Rightarrow> [] | Some ord \<Rightarrow> [ord]))
   \<and> (Some k \<notin> fst ` set (orders self) \<longrightarrow>
         find_orders as_completed self (Some k) loc dt = Some [None])
   \<and> (\<forall>ord. distinct (map fst (orders self)) \<and> (Some k, ord) \<in> set (orders self) \<longrightarrow>
         find_orders as_completed self (Some k) loc dt = Some [Some ord])
   \<and> find_orders as_completed (self\<lparr>orders := []\<rparr>) (Some k) loc dt = Some [None]"
proof -
  have miss: "map_of (orders self) (Some k) = None" if "Some k \<notin> fst ` set (orders self)"
    using that by (simp add: map_of_eq_None_iff)
  have hit: "map_of (orders self) (Some k) = Some ord"
    if "distinct (map fst (orders self))" "(Some k, ord) \<in> set (orders self)" for ord
    using that by simp
  show ?thesis
    by (auto simp: find_orders_def miss hit split: option.splits)
qed

theorem find_orders_by_id_witness:
  "find_orders rev psystem (Some 5) None None = Some [Some order_5]
   \<and> find_orders rev psystem (Some 6) None None = Some [None]
   \<and> find_orders rev (psystem\<lparr>orders := []\<rparr>) (Some 5) None None = Some [None]
   \<and> distinct (map fst (orders psystem)) \<and> (Some 5, order_5) \<in> set (orders psystem)
   \<and> Some 6 \<notin> fst ` set (orders psystem)"
  using find_orders_by_id [of rev psystem 5 None None] find_orders_by_id [of rev psystem 6 None None]
  by (simp add: psystem_simps)

lemma map_filter_simple_compare:
  "List.map_filter (\<lambda>y. simple_compare eq x y var) ys = filter (\<lambda>y. eq x (var y)) ys"
  by (induction ys) (simp_all add: simple_compare_def)

lemma find_inner_data_mset:
  assumes "mset (as_completed xs) = mset xs"
  shows "mset (find_inner_data as_completed (simple_compare eq) x xs var) =
     filter_mset (\<lambda>y. eq x (var y)) (mset xs)"
proof -
  have "mset (filter (\<lambda>y. eq x (var y)) (as_completed xs)) =
      filter_mset (\<lambda>y. eq x (var y)) (mset (as_completed xs))"
    by simp
  with assms show ?thesis
    by (simp add: find_inner_data_def map_filter_simple_compare)
qed

lemma matches_None: "matches l None = (\<lambda>ord. Location_eq l (location ord))"
  by (simp add: matches_def fun_eq_iff)

lemma matches_Some:
  "matches l (Some d) = (\<lambda>ord. Location_eq l (location ord) \<and> Date_eq d (date ord))"
  by (simp add: matches_def fun_eq_iff)

text \<open>
  Claim C7. Whatever the order in which the comparisons complete, a search with a
  location and no order id returns the stored orders that match: those whose location
  equals the given one and, when a date is given, whose date equals the given date. The
  result holds each of them as often as the dictionary does, in an order that depends on
  the completion order.
\<close>

theorem find_orders_by_location:
  assumes perm: "\<forall>xs. mset (as_completed xs) = mset xs"
  shows "\<exists>res. find_orders as_completed self None (Some l) dt = Some (map Some res)
     \<and> mset res = filter_mset (matches l dt) (mset (map snd (orders self)))
     \<and> (distinct (map fst (orders self)) \<longrightarrow>
          set res = {ord \<in> ran (map_of (orders self)). matches l dt ord})"
proof -
  let ?os = "map snd (orders self)"
  let ?m = "find_inner_data as_completed (simple_compare Location_eq) l ?os location"
  have m: "mset ?m = filter_mset (\<lambda>ord. Location_eq l (location ord)) (mset ?os)"
    using perm by (intro find_inner_data_mset) simp
  define res where "res = (case dt of None \<Rightarrow> ?m
     | Some d \<Rightarrow> if ?m \<noteq> [] then find_inner_data as_completed (simple_compare Date_eq) d ?m date
                 else ?m)"
  have ret: "find_orders as_completed self None (Some l) dt = Some (map Some res)"
    by (simp add: find_orders_def res_def Let_def split: option.splits)
  have ms: "mset res = filter_mset (matches l dt) (mset ?os)"
  proof (cases dt)
    case None
    then show ?thesis using m by (simp add: res_def matches_None)
  next
    case (Some d)
    show ?thesis
    proof (cases "?m = []")
      case True
      then have "filter_mset (\<lambda>ord. Location_eq l (location ord)) (mset ?os) = {#}"
        using m by simp
      then have "filter_mset (matches l dt) (mset ?os) = {#}"
        by (auto simp: matches_def simp del: mset_map)
      with True Some show ?thesis by (simp add: res_def)
    next
      case False
      have "mset (find_inner_data as_completed (simple_compare Date_eq) d ?m date) =
          filter_mset (\<lambda>ord. Date_eq d (date ord)) (mset ?m)"
        using perm by (intro find_inner_data_mset) simp
      also have "\<dots> = filter_mset (matches l dt) (mset ?os)"
        unfolding m using Some
        by (simp add: matches_Some filter_filter_mset conj_commute del: mset_map)
      finally show ?thesis using False Some by (simp add: res_def)
    qed
  qed
  have "set res = {ord \<in> ran (map_of (orders self)). matches l dt ord}"
    if "distinct (map fst (orders self))"
  proof -
    have "set res = set_mset (mset res)" by simp
    also have "\<dots> = {ord \<in> set ?os. matches l dt ord}"
      unfolding ms by simp
    also have "set ?os = ran (map_of (orders self))"
      using that by (simp add: ran_distinct)
    finally show ?thesis .
  qed
  with ret ms show ?thesis by blast
qed

text \<open>
  In \<open>psystem\<close> orders 4 and 5 are at the searched location. They come back in either
  order, depending on the completion order; with the date of order 4 given, order 5,
  dated a day later, is left out.
\<close>

theorem find_orders_by_location_witness:
  "(\<forall>xs :: Order list. mset (rev xs) = mset xs)
   \<and> find_orders rev psystem None (Some loc_va) None = Some [Some order_5, Some order_4]
   \<and> find_orders id psystem None (Some loc_va) None = Some [Some order_4, Some order_5]
   \<and> find_orders rev psystem None (Some loc_va) (Some date_sep20) = Some [Some order_4]
   \<and> find_orders rev psystem None (Some loc_nozip) None = Some []
   \<and> mset [order_4] = filter_mset (matches loc_va (Some date_sep20)) (mset (map snd (orders psystem)))"
  using find_orders_by_location [of rev psystem loc_va "Some date_sep20"]
  by (simp add: psystem_simps search_defs order_defs matches_def)

end
